theory Spec2Isabelle
  imports Main "HOL-Library.Word" "HOL-Library.AList"
begin

section \<open>Machine types\<close>

text \<open>
  The x64 build: \<open>ULONG_PTR\<close>, \<open>HANDLE\<close> and \<open>PVOID\<close> are 64 bits wide, \<open>ULONG\<close>,
  \<open>DWORD\<close> and \<open>NTSTATUS\<close> 32 bits, \<open>wchar_t\<close> 16 bits. A \<open>FILETIME\<close> is read by the
  code as one \<open>ULONGLONG\<close>. Counters of type \<open>size_t\<close> only count list elements and are
  natural numbers.
\<close>

type_synonym ULONG = "32 word"
type_synonym DWORD = "32 word"
type_synonym NTSTATUS = "32 word"
type_synonym ULONG_PTR = "64 word"
type_synonym ULONGLONG = "64 word"
type_synonym HANDLE = "64 word"
type_synonym PVOID = "64 word"
type_synonym wstring = "16 word list"

definition STATUS_SUCCESS :: NTSTATUS where
  "STATUS_SUCCESS = 0"

definition STATUS_INFO_LENGTH_MISMATCH :: NTSTATUS where
  "STATUS_INFO_LENGTH_MISMATCH = 0xC0000004"

definition STATUS_NO_MORE_ENTRIES :: NTSTATUS where
  "STATUS_NO_MORE_ENTRIES = 0x8000001A"

text \<open>
  The texts written to \<open>sErrorInfo\<close> (and to the list of enumeration errors), one
  constructor per message of the source, with the numbers the message prints.
\<close>

datatype error =
    CouldntGetModuleNtdll
  | CouldntGetFunctionNtQuerySystemInformation
  | UnableToLoadFunctionsFromNtdll
  | FirstCallFailed NTSTATUS
  | SecondCallFailed NTSTATUS ULONG ULONG
  | IntegerOverflow
  | GetProcessHeapFailed
  | HeapFreeFailed
  | HeapAllocFailed nat
  | ImpersonateSelfFailed
  | CannotEnableDebugPrivilege
  | QueryFailedDuringEnumeration nat NTSTATUS
  | ProcessEnumerationFailed NTSTATUS nat

text \<open>What a \<open>bool\<close>-returning function with an \<open>sErrorInfo\<close> output hands back.\<close>

datatype outcome = Ok | Failed error

section \<open>NtInternal.h: the handle table\<close>

record SYSTEM_HANDLE_TABLE_ENTRY_INFO_EX =
  Object :: PVOID
  UniqueProcessId :: ULONG_PTR
  HandleValue :: ULONG_PTR
  ObjectTypeIndex :: "16 word"

record SYSTEM_HANDLE_INFORMATION_EX =
  NumberOfHandles :: ULONG_PTR
  Handles :: "SYSTEM_HANDLE_TABLE_ENTRY_INFO_EX list"

section \<open>HeapMem\<close>

text \<open>
  \<open>m_pMem\<close> is \<open>None\<close> for \<open>nullptr\<close>, otherwise the present content of the block. The
  process heap is the environment: whether \<open>GetProcessHeap\<close> and \<open>HeapFree\<close> succeed,
  and what each \<open>HeapAlloc\<close> returns.
\<close>

record 'b HeapMem =
  m_pMem :: "'b option"
  m_nSize :: nat

record heap_env =
  processHeapOk :: bool
  heapFreeOk :: bool

definition HeapMem_init :: "'b HeapMem" where
  "HeapMem_init = \<lparr>m_pMem = None, m_nSize = 0\<rparr>"

definition Dealloc :: "heap_env \<Rightarrow> 'b HeapMem \<Rightarrow> outcome \<times> 'b HeapMem" where
  "Dealloc h m =
     (case m_pMem m of
        None \<Rightarrow> (Ok, m)
      | Some b \<Rightarrow>
          if \<not> processHeapOk h then (Failed GetProcessHeapFailed, m)
          else let m' = m\<lparr>m_pMem := None, m_nSize := 0\<rparr>
               in if heapFreeOk h then (Ok, m') else (Failed HeapFreeFailed, m'))"

definition Alloc :: "heap_env \<Rightarrow> nat \<Rightarrow> 'b option \<Rightarrow> 'b HeapMem \<Rightarrow> outcome \<times> 'b HeapMem" where
  "Alloc h nBytes heapAlloc m =
     (case Dealloc h m of
        (Failed e, m1) \<Rightarrow> (Failed e, m1)
      | (Ok, m1) \<Rightarrow>
          if \<not> processHeapOk h then (Failed GetProcessHeapFailed, m1)
          else (case heapAlloc of
                  Some b \<Rightarrow> (Ok, m1\<lparr>m_pMem := Some b, m_nSize := nBytes\<rparr>)
                | None \<Rightarrow> (Failed (HeapAllocFailed nBytes), m1\<lparr>m_pMem := None\<rparr>)))"

section \<open>AllHandlesSystemwide\<close>

type_synonym AllHandlesSystemwide = "SYSTEM_HANDLE_INFORMATION_EX HeapMem"

text \<open>
  One pass of the retry loop meets the environment three times: \<open>HeapAlloc\<close> returns a
  block (with some content) or \<open>nullptr\<close>, and \<open>NtQuerySystemInformation\<close> returns a
  status, a \<open>returnLength\<close> and leaves the block with some content.
\<close>

record query_step =
  heapAlloc :: "SYSTEM_HANDLE_INFORMATION_EX option"
  ntStat :: NTSTATUS
  returnLength :: ULONG
  written :: SYSTEM_HANDLE_INFORMATION_EX

record snapshot_env =
  heap :: heap_env
  haveNtdll :: bool
  haveNtQuerySystemInformation :: bool
  firstStat :: NTSTATUS
  firstReturnLength :: ULONG
  steps :: "query_step list"

definition Clear :: "heap_env \<Rightarrow> AllHandlesSystemwide \<Rightarrow> AllHandlesSystemwide" where
  "Clear h a = snd (Dealloc h a)"

definition Get :: "AllHandlesSystemwide \<Rightarrow> SYSTEM_HANDLE_INFORMATION_EX option" where
  "Get a = m_pMem a"

text \<open>
  The retry loop of \<open>AllHandlesSystemwide::Update\<close>. The third component of the result
  is the trace of the size computations: each pass adds the pair of the \<open>returnLength\<close>
  it started from and the \<open>sysInfoLength\<close> it computed. The loop has no bound of its
  own: when the environment's steps are used up before the loop has returned, the
  outcome is \<open>None\<close>.
\<close>

fun retry_loop ::
  "heap_env \<Rightarrow> ULONG \<Rightarrow> query_step list \<Rightarrow> AllHandlesSystemwide
     \<Rightarrow> outcome option \<times> AllHandlesSystemwide \<times> (ULONG \<times> ULONG) list" where
  "retry_loop h rl [] a = (None, a, [])"
| "retry_loop h rl (s # ss) a =
     (let a1 = Clear h a;
          sysInfoLength = rl + rl div 4
      in if sysInfoLength < rl then (Some (Failed IntegerOverflow), a1, [(rl, sysInfoLength)])
         else (case Alloc h (unat sysInfoLength) (heapAlloc s) a1 of
                 (Failed e, a2) \<Rightarrow> (Some (Failed e), a2, [(rl, sysInfoLength)])
               | (Ok, a2) \<Rightarrow>
                   let a3 = a2\<lparr>m_pMem := Some (written s)\<rparr>
                   in if ntStat s = STATUS_SUCCESS then (Some Ok, a3, [(rl, sysInfoLength)])
                      else if ntStat s = STATUS_INFO_LENGTH_MISMATCH then
                        (case retry_loop h (returnLength s) ss a3 of
                           (r, a4, tr) \<Rightarrow> (r, a4, (rl, sysInfoLength) # tr))
                      else (Some (Failed (SecondCallFailed (ntStat s) (returnLength s) sysInfoLength)),
                            a3, [(rl, sysInfoLength)])))"

definition AHS_Update ::
  "snapshot_env \<Rightarrow> AllHandlesSystemwide
     \<Rightarrow> outcome option \<times> AllHandlesSystemwide \<times> (ULONG \<times> ULONG) list" where
  "AHS_Update env a =
     (let a0 = Clear (heap env) a
      in if \<not> haveNtdll env then (Some (Failed CouldntGetModuleNtdll), a0, [])
         else if \<not> haveNtQuerySystemInformation env then
           (Some (Failed CouldntGetFunctionNtQuerySystemInformation), a0, [])
         else if firstStat env \<noteq> STATUS_INFO_LENGTH_MISMATCH then
           (Some (Failed (FirstCallFailed (firstStat env))), a0, [])
         else retry_loop (heap env) (firstReturnLength env) (steps env) a0)"

definition AHS_NumberOfHandles :: "AllHandlesSystemwide \<Rightarrow> ULONG_PTR" where
  "AHS_NumberOfHandles a =
     (case Get a of None \<Rightarrow> 0 | Some pHandleCollection \<Rightarrow> NumberOfHandles pHandleCollection)"

text \<open>
  \<open>HandleInfo\<close> returns \<open>nullptr\<close> (\<open>None\<close>) or the address of entry \<open>ix\<close> of the table,
  here the entry itself.
\<close>

definition HandleInfo ::
  "AllHandlesSystemwide \<Rightarrow> ULONG_PTR \<Rightarrow> SYSTEM_HANDLE_TABLE_ENTRY_INFO_EX option" where
  "HandleInfo a ix =
     (case Get a of
        None \<Rightarrow> None
      | Some pHandleCollection \<Rightarrow>
          if ix \<ge> NumberOfHandles pHandleCollection then None
          else Some (Handles pHandleCollection ! unat ix))"

section \<open>ZombieProcessThreadInfo.h\<close>

record ZombieProcessThreadInfo =
  PID :: ULONG_PTR
  TID :: DWORD
  sImagePath :: wstring
  createTime :: ULONGLONG
  exitTime :: ULONGLONG
  nThreads :: ULONG
  ParentPID :: ULONG_PTR
  sParentImagePath :: wstring

text \<open>
  The three \<open>std::unordered_map\<close> lookups are association lists with one pair per key:
  \<open>m[k] = v\<close> is \<open>AList.update\<close>, \<open>find\<close> is \<open>map_of\<close>, \<open>erase\<close> is
  \<open>AList.delete\<close>, \<open>clear\<close> gives \<open>[]\<close>, and an iteration visits the pairs in the
  order of the list.
\<close>

type_synonym ZombieHandleLookup_t = "(HANDLE \<times> ZombieProcessThreadInfo) list"
type_synonym ZombieObjectAddrLookup_t = "(PVOID \<times> ZombieProcessThreadInfo) list"
type_synonym ZombiePidLookup_t = "(ULONG_PTR \<times> ZombieProcessThreadInfo) list"
type_synonym ZombieProcessThreadInfoList_t = "ZombieProcessThreadInfo list"
type_synonym ProcessEnumErrorInfoList_t = "error list"

section \<open>ZombieHandles\<close>

record ZombieHandles =
  m_ZombieHandleLookup :: ZombieHandleLookup_t
  m_nZombieProcesses :: nat
  m_nTotalProcesses :: nat

definition ZombieHandles_init :: ZombieHandles where
  "ZombieHandles_init =
     \<lparr>m_ZombieHandleLookup = [], m_nZombieProcesses = 0, m_nTotalProcesses = 0\<rparr>"

text \<open>
  The calls that open and close kernel handles are effects on the handle table of the
  process. A function that makes such calls returns them as events, in the order of the
  calls: \<open>Opened h\<close> for a call that returned the new handle \<open>h\<close>, \<open>Closed h\<close> for
  \<open>CloseHandle(h)\<close>.
\<close>

datatype handle_event = Opened HANDLE | Closed HANDLE

text \<open>
  \<open>ReleaseAcquiredHandles\<close> returns the object and the handles it passed to
  \<open>CloseHandle\<close>, in the order of the calls. The destructor is the same call.
\<close>

definition ReleaseAcquiredHandles :: "ZombieHandles \<Rightarrow> ZombieHandles \<times> HANDLE list" where
  "ReleaseAcquiredHandles z =
     (z\<lparr>m_ZombieHandleLookup := []\<rparr>, map fst (m_ZombieHandleLookup z))"

text \<open>
  What the kernel shows of one process that \<open>NtGetNextProcess\<close> returns: the new handle,
  the result of the first \<open>NtQueryInformationProcess\<close> call, of \<open>GetProcessTimes\<close> (both
  times stay 0 when it fails), of the calls that \<open>GetParentProcessImagePathIfStillRunning\<close>
  makes on the parent (\<open>OpenProcess\<close>, where 0 is \<open>nullptr\<close>, \<open>GetProcessTimes\<close> and
  \<open>QueryFullProcessImageNameW\<close>), of the image-name query (its status and the \<open>Buffer\<close>
  of the \<open>UNICODE_STRING\<close>, \<open>None\<close> for a null pointer), of \<open>OpenProcess\<close> on the zombie,
  and the thread handles and ids that \<open>NtGetNextThread\<close> and \<open>GetThreadId\<close> return until
  the first other status.
\<close>

record process_obs =
  hThisProcess :: HANDLE
  basicInfoStat :: NTSTATUS
  IsProcessDeleting :: bool
  BasicInfo_UniqueProcessId :: ULONG_PTR
  BasicInfo_InheritedFromUniqueProcessId :: ULONG_PTR
  times_createTime :: ULONGLONG
  times_exitTime :: ULONGLONG
  hParentProcess :: HANDLE
  parentTimesRet :: bool
  parentCreateTime :: ULONGLONG
  parentQueryRet :: bool
  parentImagePath :: wstring
  imageFileNameStat :: NTSTATUS
  imageFileName_Buffer :: "wstring option"
  hProcessQI :: HANDLE
  threads :: "(HANDLE \<times> DWORD) list"

text \<open>
  The kernel's processes are finitely many: \<open>NtGetNextProcess\<close> succeeds once for each
  element of \<open>processes\<close> and then returns \<open>ntGNP\<close>.
\<close>

record discovery_env =
  haveNtdllModule :: bool
  haveNtdllFunctions :: bool
  ulNow :: ULONGLONG
  processes :: "process_obs list"
  ntGNP :: NTSTATUS

text \<open>
  UtilityFunctions.cpp: \<open>GetParentProcessImagePathIfStillRunning\<close>, called for the
  process \<open>p\<close> with its parent id and its creation time. It returns \<open>retval\<close>, the path
  and the handle events: the parent's handle is opened and, when that succeeded, closed
  again before the return.
\<close>

definition GetParentProcessImagePathIfStillRunning ::
  "process_obs \<Rightarrow> bool \<times> wstring \<times> handle_event list" where
  "GetParentProcessImagePathIfStillRunning p =
     (if hParentProcess p \<noteq> 0 then
        (let (retval, sProcessImagePath) =
               (if parentTimesRet p then
                  (if parentCreateTime p < times_createTime p
                   then (True, if parentQueryRet p then parentImagePath p else [])
                   else (False, []))
                else (False, []))
         in (retval, sProcessImagePath, [Opened (hParentProcess p), Closed (hParentProcess p)]))
      else (False, [], []))"

text \<open>The variables of the enumeration loop, and the handle events so far.\<close>

record enum_state =
  zh :: ZombieHandles
  zombiePidLookup :: ZombiePidLookup_t
  processEnumErrors :: ProcessEnumErrorInfoList_t
  hPrevProcess :: HANDLE
  bClosePrevProcess :: bool
  events :: "handle_event list"

text \<open>The \<open>NtGetNextThread\<close> loop: one lookup entry per thread handle.\<close>

fun add_threads ::
  "ZombieProcessThreadInfo \<Rightarrow> (HANDLE \<times> DWORD) list \<Rightarrow> ULONG \<Rightarrow> ZombieHandleLookup_t
     \<Rightarrow> ULONG \<times> ZombieHandleLookup_t" where
  "add_threads zombieInfo [] n l = (n, l)"
| "add_threads zombieInfo ((hThread, tid) # ts) n l =
     add_threads zombieInfo ts (n + 1) (AList.update hThread (zombieInfo\<lparr>TID := tid\<rparr>) l)"

definition is_old_enough :: "ULONGLONG \<Rightarrow> ULONGLONG \<Rightarrow> ULONGLONG \<Rightarrow> bool" where
  "is_old_enough nAgeInSeconds now ulExitTime \<longleftrightarrow>
     0 = nAgeInSeconds \<or>
     (now > ulExitTime \<and> (now - ulExitTime) div 10000000 \<ge> nAgeInSeconds)"

text \<open>
  \<open>zombieInfo\<close> as the loop body has filled it in when it reaches the thread loop: zero
  but for the times, the two process ids and the two image paths. The image path is
  assigned from \<open>Buffer\<close> without a check; assigning a null pointer to a \<open>std::wstring\<close>
  is undefined, and no value is given for it here.
\<close>

definition zombieInfo_of :: "process_obs \<Rightarrow> ZombieProcessThreadInfo" where
  "zombieInfo_of p =
     \<lparr>PID = BasicInfo_UniqueProcessId p, TID = 0,
      sImagePath = (if imageFileNameStat p = STATUS_SUCCESS
                    then (case imageFileName_Buffer p of Some path \<Rightarrow> path | None \<Rightarrow> undefined)
                    else []),
      createTime = times_createTime p, exitTime = times_exitTime p, nThreads = 0,
      ParentPID = BasicInfo_InheritedFromUniqueProcessId p,
      sParentImagePath = fst (snd (GetParentProcessImagePathIfStillRunning p))\<rparr>"

text \<open>
  The body of the innermost \<open>if\<close>: the process is a zombie. Its handle events are those
  of the call for the parent's path, then \<open>OpenProcess\<close> on the zombie, one new handle
  for each thread, and \<open>CloseHandle(hProcessQI)\<close>.
\<close>

definition record_zombie :: "process_obs \<Rightarrow> enum_state \<Rightarrow> enum_state" where
  "record_zombie p s =
     (let zombieInfo = zombieInfo_of p;
          (n, l) = (if hProcessQI p \<noteq> 0
                    then add_threads zombieInfo (threads p) 0 (m_ZombieHandleLookup (zh s))
                    else (0, m_ZombieHandleLookup (zh s)));
          ev = events s @ snd (snd (GetParentProcessImagePathIfStillRunning p)) @
               (if hProcessQI p \<noteq> 0
                then Opened (hProcessQI p) # map (\<lambda>t. Opened (fst t)) (threads p) @
                     [Closed (hProcessQI p)]
                else []);
          zombieInfo' = zombieInfo\<lparr>TID := 0, nThreads := n\<rparr>
      in s\<lparr>zh := (zh s)\<lparr>m_ZombieHandleLookup := AList.update (hThisProcess p) zombieInfo' l,
                           m_nZombieProcesses := m_nZombieProcesses (zh s) + 1\<rparr>,
            zombiePidLookup := AList.update (PID zombieInfo') zombieInfo' (zombiePidLookup s),
            bClosePrevProcess := False,
            events := ev\<rparr>)"

text \<open>
  One pass of the \<open>NtGetNextProcess\<close> loop, for the process \<open>p\<close> that the call in the
  loop condition returned: the new handle is open before the body closes the previous
  one.
\<close>

definition enum_step :: "ULONGLONG \<Rightarrow> ULONGLONG \<Rightarrow> process_obs \<Rightarrow> enum_state \<Rightarrow> enum_state" where
  "enum_step nAgeInSeconds now p s =
     (let s0 = s\<lparr>events := events s @ [Opened (hThisProcess p)]\<rparr>;
          s1 = (if bClosePrevProcess s0 \<and> hPrevProcess s0 \<noteq> 0
                then s0\<lparr>events := events s0 @ [Closed (hPrevProcess s0)]\<rparr> else s0);
          s2 = s1\<lparr>zh := (zh s1)\<lparr>m_nTotalProcesses := m_nTotalProcesses (zh s1) + 1\<rparr>,
                  bClosePrevProcess := True\<rparr>;
          s3 = (if basicInfoStat p \<noteq> STATUS_SUCCESS
                then s2\<lparr>processEnumErrors := processEnumErrors s2 @
                          [QueryFailedDuringEnumeration (m_nTotalProcesses (zh s2)) (basicInfoStat p)]\<rparr>
                else if IsProcessDeleting p then
                  (if 0 \<noteq> times_exitTime p then
                     (if is_old_enough nAgeInSeconds now (times_exitTime p)
                      then record_zombie p s2 else s2)
                   else s2)
                else s2)
      in s3\<lparr>hPrevProcess := hThisProcess p\<rparr>)"

fun enum_loop :: "ULONGLONG \<Rightarrow> ULONGLONG \<Rightarrow> process_obs list \<Rightarrow> enum_state \<Rightarrow> enum_state" where
  "enum_loop nAgeInSeconds now [] s = s"
| "enum_loop nAgeInSeconds now (p # ps) s =
     enum_loop nAgeInSeconds now ps (enum_step nAgeInSeconds now p s)"

text \<open>
  \<open>AcquireNewHandlesToExistingZombies\<close> returns its \<open>bool\<close> and \<open>sErrorInfo\<close>, the
  object, the two output lists and its handle events, which begin with the release of
  what the object held.
\<close>

definition AcquireNewHandlesToExistingZombies ::
  "discovery_env \<Rightarrow> ULONGLONG \<Rightarrow> ZombieHandles
     \<Rightarrow> outcome \<times> ZombieHandles \<times> ZombiePidLookup_t \<times> ProcessEnumErrorInfoList_t
         \<times> handle_event list" where
  "AcquireNewHandlesToExistingZombies env nAgeInSeconds z =
     (let (z0, cl0) = ReleaseAcquiredHandles (z\<lparr>m_nZombieProcesses := 0, m_nTotalProcesses := 0\<rparr>)
      in if \<not> haveNtdllModule env then (Failed CouldntGetModuleNtdll, z0, [], [], map Closed cl0)
         else if \<not> haveNtdllFunctions env
           then (Failed UnableToLoadFunctionsFromNtdll, z0, [], [], map Closed cl0)
         else
           let s = enum_loop nAgeInSeconds (ulNow env) (processes env)
                     \<lparr>zh = z0, zombiePidLookup = [], processEnumErrors = [],
                      hPrevProcess = 0, bClosePrevProcess = False, events = map Closed cl0\<rparr>;
               ev = (if bClosePrevProcess s \<and> hPrevProcess s \<noteq> 0
                     then events s @ [Closed (hPrevProcess s)] else events s);
               errs = (if STATUS_NO_MORE_ENTRIES \<noteq> ntGNP env
                       then processEnumErrors s @
                              [ProcessEnumerationFailed (ntGNP env) (m_nTotalProcesses (zh s))]
                       else processEnumErrors s)
           in (Ok, zh s, zombiePidLookup s, errs, ev))"

section \<open>SecurityUtils: EnablePrivilege\<close>

record priv_env =
  openThreadTokenOk :: bool
  lookupPrivilegeValueRet :: bool
  lookupLastErr :: DWORD
  adjustTokenPrivilegesRet :: bool
  adjustLastErr :: DWORD

definition EnablePrivilege :: "priv_env \<Rightarrow> bool" where
  "EnablePrivilege pe =
     (if \<not> openThreadTokenOk pe then False
      else let (ret, dwLastErr) =
                 (if lookupPrivilegeValueRet pe
                  then (adjustTokenPrivilegesRet pe, adjustLastErr pe)
                  else (False, lookupLastErr pe))
           in if \<not> ret \<or> 0 \<noteq> dwLastErr then False else True)"

section \<open>ZombieOwners\<close>

record ServiceNames_t =
  sServiceName :: wstring
  sDisplayName :: wstring

type_synonym ServiceList_t = "ServiceNames_t list"

record ZombieOwningInfo =
  handleValue :: ULONG_PTR
  zombieInfo :: ZombieProcessThreadInfo

type_synonym ZombieOwningInfoList_t = "ZombieOwningInfo list"

record ZombieOwner_t =
  PID :: ULONG_PTR
  sProcessImagePath :: wstring
  sExeName :: wstring
  pServiceList :: "ServiceList_t option"
  zombieOwningInfo :: ZombieOwningInfoList_t

type_synonym ZombieOwnersCollection_t = "(ULONG_PTR \<times> ZombieOwner_t) list"

text \<open>
  An element of \<open>m_ownersSorted\<close> is the address of a node of \<open>m_owners\<close>. A node is
  named here by its key: the pointer \<open>p\<close> points to the \<open>ZombieOwner_t\<close> stored under
  the key \<open>p\<close>, and it dangles when \<open>m_owners\<close> has no such key.
\<close>

type_synonym ZombieOwnersCollectionSorted_t = "ULONG_PTR list"

record ZombieOwners =
  m_owners :: ZombieOwnersCollection_t
  m_ownersSorted :: ZombieOwnersCollectionSorted_t
  m_unexplained :: ZombieProcessThreadInfoList_t
  m_processEnumErrors :: ProcessEnumErrorInfoList_t
  m_nZombieProcessesAndThreads :: nat
  m_nZombieProcesses :: nat
  m_nTotalProcesses :: nat

definition ZombieOwners_init :: ZombieOwners where
  "ZombieOwners_init =
     \<lparr>m_owners = [], m_ownersSorted = [], m_unexplained = [], m_processEnumErrors = [],
      m_nZombieProcessesAndThreads = 0, m_nZombieProcesses = 0, m_nTotalProcesses = 0\<rparr>"

definition OwnersCollection :: "ZombieOwners \<Rightarrow> ZombieOwnersCollection_t" where
  "OwnersCollection st = m_owners st"

definition OwnersCollectionSorted :: "ZombieOwners \<Rightarrow> ZombieOwnersCollectionSorted_t" where
  "OwnersCollectionSorted st = m_ownersSorted st"

definition UnexplainedZombies :: "ZombieOwners \<Rightarrow> ZombieProcessThreadInfoList_t" where
  "UnexplainedZombies st = m_unexplained st"

definition ZombieProcessAndThreadCount :: "ZombieOwners \<Rightarrow> nat" where
  "ZombieProcessAndThreadCount st = m_nZombieProcessesAndThreads st"

definition ZombieProcessCount :: "ZombieOwners \<Rightarrow> nat" where
  "ZombieProcessCount st = ZombieOwners.m_nZombieProcesses st"

definition TotalProcessCount :: "ZombieOwners \<Rightarrow> nat" where
  "TotalProcessCount st = ZombieOwners.m_nTotalProcesses st"

text \<open>
  The C runtime's \<open>_wcsicmp\<close> on two \<open>c_str()\<close> arguments: the difference of the first
  pair of characters that differ after lowering \<open>A\<close>..\<open>Z\<close>, the end of a string
  counting as the character 0.
\<close>

definition towlower :: "16 word \<Rightarrow> 16 word" where
  "towlower c = (if 0x41 \<le> c \<and> c \<le> 0x5A then c + 0x20 else c)"

fun wcsicmp :: "wstring \<Rightarrow> wstring \<Rightarrow> int" where
  "wcsicmp [] [] = 0"
| "wcsicmp [] (b # bs) = - uint (towlower b)"
| "wcsicmp (a # as) [] = uint (towlower a)"
| "wcsicmp (a # as) (b # bs) =
     (if towlower a \<noteq> towlower b then uint (towlower a) - uint (towlower b)
      else if a = 0 then 0
      else wcsicmp as bs)"

definition ZombieOwnerComparator :: "ZombieOwner_t \<Rightarrow> ZombieOwner_t \<Rightarrow> bool" where
  "ZombieOwnerComparator pA pB =
     (if length (zombieOwningInfo pA) = length (zombieOwningInfo pB) then
        (let cmpResult = wcsicmp (sExeName pA) (sExeName pB)
         in if 0 = cmpResult then ZombieOwner_t.PID pA < ZombieOwner_t.PID pB
            else cmpResult < 0)
      else length (zombieOwningInfo pA) > length (zombieOwningInfo pB))"

text \<open>
  The comparator as \<open>std::sort\<close> calls it, on two pointers. Reading through a dangling
  pointer has no defined result.
\<close>

definition compare_ptrs :: "ZombieOwnersCollection_t \<Rightarrow> ULONG_PTR \<Rightarrow> ULONG_PTR \<Rightarrow> bool" where
  "compare_ptrs owners pA pB =
     (case (map_of owners pA, map_of owners pB) of
        (Some a, Some b) \<Rightarrow> ZombieOwnerComparator a b
      | _ \<Rightarrow> undefined)"

text \<open>
  \<open>std::sort\<close>, as an insertion sort: each element goes before the first one that the
  comparator does not put before it.
\<close>

fun insert_by :: "('a \<Rightarrow> 'a \<Rightarrow> bool) \<Rightarrow> 'a \<Rightarrow> 'a list \<Rightarrow> 'a list" where
  "insert_by lt x [] = [x]"
| "insert_by lt x (y # ys) = (if lt y x then y # insert_by lt x ys else x # y # ys)"

fun std_sort :: "('a \<Rightarrow> 'a \<Rightarrow> bool) \<Rightarrow> 'a list \<Rightarrow> 'a list" where
  "std_sort lt [] = []"
| "std_sort lt (x # xs) = insert_by lt x (std_sort lt xs)"

text \<open>
  The environment of a run: the security calls, the two leaf components' environments,
  the id of the current process, and the helpers declared in UtilityFunctions.h,
  StringUtils.h and ServiceLookupByPID.h.
\<close>

record owners_env =
  impersonateSelfOk :: bool
  priv :: priv_env
  discovery :: discovery_env
  snapshot :: snapshot_env
  dwCurrPID :: DWORD
  GetImagePathFromPID :: "ULONG_PTR \<Rightarrow> wstring"
  GetFileNameFromFilePath :: "wstring \<Rightarrow> wstring"
  LookupServicesByPID :: "ULONG_PTR \<Rightarrow> ServiceList_t option"

text \<open>
  Pass 1: the body of the first loop over the snapshot, for the index \<open>ix\<close>, and what
  it does with an entry that is there.
\<close>

definition resolve ::
  "DWORD \<Rightarrow> ZombieHandleLookup_t \<Rightarrow> SYSTEM_HANDLE_TABLE_ENTRY_INFO_EX
     \<Rightarrow> ZombieObjectAddrLookup_t \<Rightarrow> ZombieObjectAddrLookup_t" where
  "resolve currPID zombieHandleLookup pHandleInfo zombieObjectAddrLookup =
     (if UniqueProcessId pHandleInfo = ucast currPID then
        (case map_of zombieHandleLookup (HandleValue pHandleInfo) of
           None \<Rightarrow> zombieObjectAddrLookup
         | Some z \<Rightarrow> AList.update (Object pHandleInfo) z zombieObjectAddrLookup)
      else zombieObjectAddrLookup)"

definition pass1_step ::
  "DWORD \<Rightarrow> ZombieHandleLookup_t \<Rightarrow> AllHandlesSystemwide \<Rightarrow> nat
     \<Rightarrow> ZombieObjectAddrLookup_t \<Rightarrow> ZombieObjectAddrLookup_t" where
  "pass1_step currPID zombieHandleLookup ahs ix zombieObjectAddrLookup =
     (case HandleInfo ahs (of_nat ix) of
        None \<Rightarrow> zombieObjectAddrLookup
      | Some pHandleInfo \<Rightarrow> resolve currPID zombieHandleLookup pHandleInfo zombieObjectAddrLookup)"

definition new_owner :: "owners_env \<Rightarrow> ULONG_PTR \<Rightarrow> ZombieOwner_t" where
  "new_owner env pid =
     \<lparr>PID = pid,
      sProcessImagePath = GetImagePathFromPID env pid,
      sExeName = GetFileNameFromFilePath env (GetImagePathFromPID env pid),
      pServiceList = LookupServicesByPID env pid,
      zombieOwningInfo = []\<rparr>"

text \<open>\<open>m_owners[pid].zombieOwningInfo.push_back(owningInfo)\<close>\<close>

definition push_owning ::
  "ULONG_PTR \<Rightarrow> ZombieOwningInfo \<Rightarrow> ZombieOwnersCollection_t \<Rightarrow> ZombieOwnersCollection_t" where
  "push_owning pid owningInfo owners =
     (let owner = (case map_of owners pid of
                     Some ow \<Rightarrow> ow
                   | None \<Rightarrow> \<lparr>PID = 0, sProcessImagePath = [], sExeName = [],
                              pServiceList = None, zombieOwningInfo = []\<rparr>)
      in AList.update pid (owner\<lparr>zombieOwningInfo := zombieOwningInfo owner @ [owningInfo]\<rparr>) owners)"

text \<open>
  Pass 2: the body of the second loop, on \<open>m_owners\<close> and \<open>zombiePidLookup\<close>, for an
  entry that is there and for the index \<open>ix\<close>.
\<close>

definition attribute ::
  "owners_env \<Rightarrow> ZombieHandleLookup_t \<Rightarrow> ZombieObjectAddrLookup_t
     \<Rightarrow> SYSTEM_HANDLE_TABLE_ENTRY_INFO_EX
     \<Rightarrow> ZombieOwnersCollection_t \<times> ZombiePidLookup_t
     \<Rightarrow> ZombieOwnersCollection_t \<times> ZombiePidLookup_t" where
  "attribute env zombieHandleLookup zombieObjectAddrLookup pHandleInfo acc =
     (case map_of zombieObjectAddrLookup (Object pHandleInfo) of
        None \<Rightarrow> acc
      | Some z \<Rightarrow>
          if UniqueProcessId pHandleInfo \<noteq> ucast (dwCurrPID env) \<or>
             map_of zombieHandleLookup (HandleValue pHandleInfo) = None
          then
            (let pid = UniqueProcessId pHandleInfo;
                 owners1 = (case map_of (fst acc) pid of
                              None \<Rightarrow> AList.update pid (new_owner env pid) (fst acc)
                            | Some ow \<Rightarrow> fst acc);
                 owningInfo = \<lparr>handleValue = HandleValue pHandleInfo, zombieInfo = z\<rparr>;
                 owners2 = push_owning pid owningInfo owners1;
                 pids = (case map_of (snd acc) (ZombieProcessThreadInfo.PID z) of
                           Some iPID \<Rightarrow> AList.delete (ZombieProcessThreadInfo.PID z) (snd acc)
                         | None \<Rightarrow> snd acc)
             in (owners2, pids))
          else acc)"

definition pass2_step ::
  "owners_env \<Rightarrow> ZombieHandleLookup_t \<Rightarrow> ZombieObjectAddrLookup_t \<Rightarrow> AllHandlesSystemwide \<Rightarrow> nat
     \<Rightarrow> ZombieOwnersCollection_t \<times> ZombiePidLookup_t
     \<Rightarrow> ZombieOwnersCollection_t \<times> ZombiePidLookup_t" where
  "pass2_step env zombieHandleLookup zombieObjectAddrLookup ahs ix acc =
     (case HandleInfo ahs (of_nat ix) of
        None \<Rightarrow> acc
      | Some pHandleInfo \<Rightarrow> attribute env zombieHandleLookup zombieObjectAddrLookup pHandleInfo acc)"

text \<open>The two loops, \<open>for (ULONG_PTR ix = 0; ix < numHandles; ++ix)\<close>.\<close>

definition pass1 ::
  "DWORD \<Rightarrow> ZombieHandleLookup_t \<Rightarrow> AllHandlesSystemwide \<Rightarrow> ZombieObjectAddrLookup_t" where
  "pass1 currPID zombieHandleLookup ahs =
     fold (pass1_step currPID zombieHandleLookup ahs) [0..<unat (AHS_NumberOfHandles ahs)] []"

definition pass2 ::
  "owners_env \<Rightarrow> ZombieHandleLookup_t \<Rightarrow> ZombieObjectAddrLookup_t \<Rightarrow> AllHandlesSystemwide
     \<Rightarrow> ZombieOwnersCollection_t \<times> ZombiePidLookup_t
     \<Rightarrow> ZombieOwnersCollection_t \<times> ZombiePidLookup_t" where
  "pass2 env zombieHandleLookup zombieObjectAddrLookup ahs acc =
     fold (pass2_step env zombieHandleLookup zombieObjectAddrLookup ahs)
       [0..<unat (AHS_NumberOfHandles ahs)] acc"

text \<open>
  \<open>Update_Impl\<close>. The local \<open>ZombieHandles\<close> and \<open>AllHandlesSystemwide\<close> objects are new
  in every call; the two loops over the indices \<open>0 \<le> ix < numHandles\<close> are \<open>pass1\<close>
  and \<open>pass2\<close>. The diagnostic dump at the end writes files only and is left out. The
  outcome is \<open>None\<close> when the snapshot's retry loop has not returned. The third
  component is the handle events of the local \<open>zombieHandles\<close> from its construction
  on: those of the acquisition and, at each of the three returns, those of its
  destructor.
\<close>

definition Update_Impl ::
  "owners_env \<Rightarrow> ULONGLONG \<Rightarrow> ZombieOwners
     \<Rightarrow> outcome option \<times> ZombieOwners \<times> handle_event list" where
  "Update_Impl env nAgeInSeconds st =
     (let st0 = st\<lparr>m_owners := [], m_unexplained := [],
                   m_nZombieProcessesAndThreads := 0,
                   ZombieOwners.m_nZombieProcesses := 0,
                   ZombieOwners.m_nTotalProcesses := 0\<rparr>
      in case AcquireNewHandlesToExistingZombies (discovery env) nAgeInSeconds ZombieHandles_init of
           (Failed e, zombieHandles, pidLookup, errs, ev) \<Rightarrow>
             (Some (Failed e), st0\<lparr>m_processEnumErrors := errs\<rparr>,
              ev @ map Closed (snd (ReleaseAcquiredHandles zombieHandles)))
         | (Ok, zombieHandles, pidLookup, errs, ev) \<Rightarrow>
             (let st1 = st0\<lparr>m_processEnumErrors := errs,
                            m_nZombieProcessesAndThreads := length (m_ZombieHandleLookup zombieHandles),
                            ZombieOwners.m_nZombieProcesses := ZombieHandles.m_nZombieProcesses zombieHandles,
                            ZombieOwners.m_nTotalProcesses := ZombieHandles.m_nTotalProcesses zombieHandles\<rparr>;
                  dtor = map Closed (snd (ReleaseAcquiredHandles zombieHandles))
              in case AHS_Update (snapshot env) HeapMem_init of
                   (None, allHandlesSystemwide, tr) \<Rightarrow> (None, st1, ev)
                 | (Some (Failed e), allHandlesSystemwide, tr) \<Rightarrow> (Some (Failed e), st1, ev @ dtor)
                 | (Some Ok, allHandlesSystemwide, tr) \<Rightarrow>
                     (let zombieHandleLookup = m_ZombieHandleLookup zombieHandles;
                          zombieObjectAddrLookup =
                            pass1 (dwCurrPID env) zombieHandleLookup allHandlesSystemwide;
                          (owners, pids) =
                            pass2 env zombieHandleLookup zombieObjectAddrLookup allHandlesSystemwide
                              (m_owners st1, pidLookup);
                          ownersSorted =
                            std_sort (compare_ptrs owners) (m_ownersSorted st1 @ map fst owners)
                      in (Some Ok, st1\<lparr>m_owners := owners,
                                        m_ownersSorted := ownersSorted,
                                        m_unexplained := map snd pids\<rparr>,
                          ev @ dtor))))"

text \<open>
  \<open>Update\<close>, on the object and on the calling thread: \<open>impersonating\<close> says whether the
  thread runs under its own token, which \<open>ImpersonateSelf\<close> gives it and
  \<open>RevertToSelf\<close> takes away.
\<close>

record thread_ctx =
  impersonating :: bool

definition Update ::
  "owners_env \<Rightarrow> ULONGLONG \<Rightarrow> ZombieOwners \<times> thread_ctx
     \<Rightarrow> outcome option \<times> ZombieOwners \<times> thread_ctx" where
  "Update env nAgeInSeconds s =
     (case s of (st, th) \<Rightarrow>
        if \<not> impersonateSelfOk env then (Some (Failed ImpersonateSelfFailed), st, th)
        else let th1 = th\<lparr>impersonating := True\<rparr>
             in if \<not> EnablePrivilege (priv env) then (Some (Failed CannotEnableDebugPrivilege), st, th1)
                else (case Update_Impl env nAgeInSeconds st of
                        (retval, st', ev) \<Rightarrow> (retval, st', th1\<lparr>impersonating := False\<rparr>)))"

section \<open>Predicates and sample runs used by the theorems\<close>

text \<open>
  A size computation \<open>e = (returnLength, sysInfoLength)\<close> of the retry loop is in order
  for the run with outcome \<open>r\<close> and trace \<open>tr\<close>: it is the source's sum, which either
  did not wrap and covers the requirement, or wrapped and ended the run with the
  overflow error.
\<close>

definition size_ok :: "outcome option \<Rightarrow> (ULONG \<times> ULONG) list \<Rightarrow> ULONG \<times> ULONG \<Rightarrow> bool" where
  "size_ok r tr e \<longleftrightarrow>
     snd e = fst e + fst e div 4 \<and>
     (if unat (fst e) + unat (fst e) div 4 < 2 ^ 32
      then fst e \<le> snd e \<and> unat (snd e) = unat (fst e) + unat (fst e) div 4
      else r = Some (Failed IntegerOverflow) \<and> last tr = e)"

text \<open>Sample environments: a snapshot that needs one retry, one whose first requirement
  overflows, one whose size probe fails, and an object that holds a table.\<close>

definition demo_heap :: heap_env where
  "demo_heap = \<lparr>processHeapOk = True, heapFreeOk = True\<rparr>"

definition demo_table :: SYSTEM_HANDLE_INFORMATION_EX where
  "demo_table = \<lparr>NumberOfHandles = 2, Handles =
     [\<lparr>Object = 0xF00, UniqueProcessId = 1, HandleValue = 0x10, ObjectTypeIndex = 7\<rparr>,
      \<lparr>Object = 0xF00, UniqueProcessId = 7, HandleValue = 0x44, ObjectTypeIndex = 7\<rparr>]\<rparr>"

definition demo_block :: SYSTEM_HANDLE_INFORMATION_EX where
  "demo_block = \<lparr>NumberOfHandles = 0, Handles = []\<rparr>"

definition demo_snapshot :: snapshot_env where
  "demo_snapshot = \<lparr>heap = demo_heap, haveNtdll = True, haveNtQuerySystemInformation = True,
     firstStat = 0xC0000004, firstReturnLength = 100,
     steps = [\<lparr>heapAlloc = Some demo_block, ntStat = 0xC0000004, returnLength = 160, written = demo_block\<rparr>,
              \<lparr>heapAlloc = Some demo_block, ntStat = 0, returnLength = 104, written = demo_table\<rparr>]\<rparr>"

definition demo_snapshot_overflow :: snapshot_env where
  "demo_snapshot_overflow = demo_snapshot\<lparr>firstReturnLength := 0xF0000000\<rparr>"

definition demo_snapshot_failing :: snapshot_env where
  "demo_snapshot_failing = demo_snapshot\<lparr>firstStat := 0xC0000022\<rparr>"

definition demo_held :: AllHandlesSystemwide where
  "demo_held = \<lparr>m_pMem = Some demo_table, m_nSize = 200\<rparr>"

text \<open>The invariant of the enumeration loop on the two lookups: each has one pair per key,
  every record of the handle lookup has its process id among the keys of the pid
  lookup, every record of the pid lookup sits under its own process id, and every
  record has an exit time that passed the age check.\<close>

definition lookups_ok :: "ULONGLONG \<Rightarrow> ULONGLONG \<Rightarrow> ZombieHandleLookup_t \<Rightarrow> ZombiePidLookup_t \<Rightarrow> bool" where
  "lookups_ok nAge now l pl \<longleftrightarrow>
     distinct (map fst l) \<and> distinct (map fst pl) \<and>
     (\<forall>(h, z) \<in> set l. ZombieProcessThreadInfo.PID z \<in> fst ` set pl \<and>
         exitTime z \<noteq> 0 \<and> is_old_enough nAge now (exitTime z)) \<and>
     (\<forall>(k, z) \<in> set pl. ZombieProcessThreadInfo.PID z = k \<and>
         exitTime z \<noteq> 0 \<and> is_old_enough nAge now (exitTime z))"

text \<open>Sample processes for a run that starts at tick 200 000 000: a live one, a zombie
  with one thread that exited 10 seconds before and whose parent is still there, and
  one that exited a second before.\<close>

definition demo_zombie :: process_obs where
  "demo_zombie = \<lparr>hThisProcess = 0x10, basicInfoStat = 0, IsProcessDeleting = True,
     BasicInfo_UniqueProcessId = 100, BasicInfo_InheritedFromUniqueProcessId = 4,
     times_createTime = 1000, times_exitTime = 100000000,
     hParentProcess = 0x24, parentTimesRet = True, parentCreateTime = 100, parentQueryRet = False,
     parentImagePath = [],
     imageFileNameStat = 0, imageFileName_Buffer = Some [0x50], hProcessQI = 0x14,
     threads = [(0x18, 101)]\<rparr>"

definition demo_live :: process_obs where
  "demo_live = \<lparr>hThisProcess = 0x1C, basicInfoStat = 0, IsProcessDeleting = False,
     BasicInfo_UniqueProcessId = 7, BasicInfo_InheritedFromUniqueProcessId = 4,
     times_createTime = 500, times_exitTime = 0,
     hParentProcess = 0, parentTimesRet = False, parentCreateTime = 0, parentQueryRet = False,
     parentImagePath = [],
     imageFileNameStat = 0, imageFileName_Buffer = Some [0x51], hProcessQI = 0, threads = []\<rparr>"

definition demo_recent :: process_obs where
  "demo_recent = \<lparr>hThisProcess = 0x20, basicInfoStat = 0, IsProcessDeleting = True,
     BasicInfo_UniqueProcessId = 104, BasicInfo_InheritedFromUniqueProcessId = 4,
     times_createTime = 2000, times_exitTime = 190000000,
     hParentProcess = 0, parentTimesRet = False, parentCreateTime = 0, parentQueryRet = False,
     parentImagePath = [],
     imageFileNameStat = 0, imageFileName_Buffer = Some [0x52], hProcessQI = 0, threads = []\<rparr>"

definition demo_discovery :: discovery_env where
  "demo_discovery = \<lparr>haveNtdllModule = True, haveNtdllFunctions = True, ulNow = 200000000,
     processes = [demo_live, demo_zombie, demo_recent], ntGNP = 0x8000001A\<rparr>"

definition demo_zombie_info :: ZombieProcessThreadInfo where
  "demo_zombie_info = \<lparr>ZombieProcessThreadInfo.PID = 100, TID = 0, sImagePath = [0x50], createTime = 1000,
     exitTime = 100000000, nThreads = 1, ParentPID = 4, sParentImagePath = []\<rparr>"

definition demo_handles :: ZombieHandles where
  "demo_handles = \<lparr>m_ZombieHandleLookup =
       [(0x18, demo_zombie_info\<lparr>TID := 101, nThreads := 0\<rparr>), (0x10, demo_zombie_info)],
     m_nZombieProcesses = 1, m_nTotalProcesses = 3\<rparr>"

text \<open>The entries that the two loops of \<open>Update_Impl\<close> see: \<open>HandleInfo(ix)\<close> for the
  indices below \<open>NumberOfHandles()\<close>, in their order.\<close>

definition snapshot_entries :: "AllHandlesSystemwide \<Rightarrow> SYSTEM_HANDLE_TABLE_ENTRY_INFO_EX list" where
  "snapshot_entries ahs =
     concat (map (\<lambda>ix. case HandleInfo ahs (of_nat ix) of None \<Rightarrow> [] | Some e \<Rightarrow> [e])
               [0..<unat (AHS_NumberOfHandles ahs)])"

text \<open>What the attribution rule gives for one snapshot entry: nothing when its object
  address is not in the address lookup, or when it belongs to the current process and
  its handle value is in discovery's handle lookup; otherwise the pair of its handle
  value and the record found under its object address.\<close>

definition attributions ::
  "owners_env \<Rightarrow> ZombieHandleLookup_t \<Rightarrow> ZombieObjectAddrLookup_t
     \<Rightarrow> SYSTEM_HANDLE_TABLE_ENTRY_INFO_EX \<Rightarrow> ZombieOwningInfo list" where
  "attributions env zhl al e =
     (case map_of al (Object e) of
        None \<Rightarrow> []
      | Some z \<Rightarrow>
          if UniqueProcessId e = ucast (dwCurrPID env) \<and> map_of zhl (HandleValue e) \<noteq> None
          then [] else [\<lparr>handleValue = HandleValue e, zombieInfo = z\<rparr>])"

text \<open>The pairs held by the owner record of a process id, none when there is no
  such record.\<close>

definition holdings :: "ZombieOwnersCollection_t \<Rightarrow> ULONG_PTR \<Rightarrow> ZombieOwningInfo list" where
  "holdings owners pid = (case map_of owners pid of None \<Rightarrow> [] | Some ow \<Rightarrow> zombieOwningInfo ow)"

text \<open>A sample run of the whole engine, in the process 1: the snapshot has the
  three handles of discovery itself, two handles of process 7 (to the zombie and to its
  thread), one more handle of process 1 and one of process 9 to the zombie.\<close>

definition demo_correlation_table :: SYSTEM_HANDLE_INFORMATION_EX where
  "demo_correlation_table = \<lparr>NumberOfHandles = 7, Handles =
     [\<lparr>Object = 0xF00, UniqueProcessId = 1, HandleValue = 0x10, ObjectTypeIndex = 7\<rparr>,
      \<lparr>Object = 0xF40, UniqueProcessId = 1, HandleValue = 0x18, ObjectTypeIndex = 8\<rparr>,
      \<lparr>Object = 0xF80, UniqueProcessId = 1, HandleValue = 0x20, ObjectTypeIndex = 7\<rparr>,
      \<lparr>Object = 0xF00, UniqueProcessId = 7, HandleValue = 0x44, ObjectTypeIndex = 7\<rparr>,
      \<lparr>Object = 0xF00, UniqueProcessId = 1, HandleValue = 0x30, ObjectTypeIndex = 7\<rparr>,
      \<lparr>Object = 0xF40, UniqueProcessId = 7, HandleValue = 0x48, ObjectTypeIndex = 8\<rparr>,
      \<lparr>Object = 0xF00, UniqueProcessId = 9, HandleValue = 0x10, ObjectTypeIndex = 7\<rparr>]\<rparr>"

definition demo_priv :: priv_env where
  "demo_priv = \<lparr>openThreadTokenOk = True, lookupPrivilegeValueRet = True, lookupLastErr = 0,
      adjustTokenPrivilegesRet = True, adjustLastErr = 0\<rparr>"

definition demo_env :: owners_env where
  "demo_env = \<lparr>impersonateSelfOk = True, priv = demo_priv, discovery = demo_discovery,
     snapshot = demo_snapshot\<lparr>steps :=
       [\<lparr>heapAlloc = Some demo_block, ntStat = 0, returnLength = 104, written = demo_correlation_table\<rparr>]\<rparr>,
     dwCurrPID = 1,
     GetImagePathFromPID = (\<lambda>pid. if pid = 7 then [0x42] else if pid = 9 then [0x41] else [0x61]),
     GetFileNameFromFilePath = (\<lambda>s. s),
     LookupServicesByPID = (\<lambda>pid. None)\<rparr>"

text \<open>The zombie process ids that occur in the pairs of some owner record.\<close>

definition attributed_pids :: "ZombieOwnersCollection_t \<Rightarrow> ULONG_PTR set" where
  "attributed_pids owners =
     set (concat (map (\<lambda>(pid, ow). map (\<lambda>oi. ZombieProcessThreadInfo.PID (zombieInfo oi))
                                        (zombieOwningInfo ow)) owners))"

text \<open>The zombie process ids that discovery returns in its pid lookup.\<close>

definition discovered_pids :: "owners_env \<Rightarrow> ULONGLONG \<Rightarrow> ULONG_PTR set" where
  "discovered_pids env nAgeInSeconds =
     (case AcquireNewHandlesToExistingZombies (discovery env) nAgeInSeconds ZombieHandles_init of
        (r, zombieHandles, pidLookup, errs, cl) \<Rightarrow> set (map fst pidLookup))"

text \<open>The locals of \<open>Update_Impl\<close> as functions of the environment: discovery's
  handle lookup, the snapshot object after its \<open>Update\<close>, and the address lookup that
  pass 1 builds from them.\<close>

definition zombieHandleLookup_of :: "owners_env \<Rightarrow> ULONGLONG \<Rightarrow> ZombieHandleLookup_t" where
  "zombieHandleLookup_of env nAgeInSeconds =
     m_ZombieHandleLookup
       (fst (snd (AcquireNewHandlesToExistingZombies (discovery env) nAgeInSeconds ZombieHandles_init)))"

definition snapshot_of :: "owners_env \<Rightarrow> AllHandlesSystemwide" where
  "snapshot_of env = fst (snd (AHS_Update (snapshot env) HeapMem_init))"

definition zombieObjectAddrLookup_of :: "owners_env \<Rightarrow> ULONGLONG \<Rightarrow> ZombieObjectAddrLookup_t" where
  "zombieObjectAddrLookup_of env nAgeInSeconds =
     pass1 (dwCurrPID env) (zombieHandleLookup_of env nAgeInSeconds) (snapshot_of env)"

definition demo_thread :: thread_ctx where
  "demo_thread = \<lparr>impersonating = False\<rparr>"

text \<open>The same engine when the snapshot's first call fails, when the privilege is not
  assigned (\<open>AdjustTokenPrivileges\<close> leaves the error 1300), and a later run in which
  the snapshot shows no handle at all.\<close>

definition demo_env_snapshot_fails :: owners_env where
  "demo_env_snapshot_fails = demo_env\<lparr>snapshot := demo_snapshot_failing\<rparr>"

definition demo_env_no_privilege :: owners_env where
  "demo_env_no_privilege = demo_env\<lparr>priv := demo_priv\<lparr>adjustLastErr := 1300\<rparr>\<rparr>"

definition demo_env_later :: owners_env where
  "demo_env_later = demo_env\<lparr>snapshot := demo_snapshot\<lparr>steps :=
       [\<lparr>heapAlloc = Some demo_block, ntStat = 0, returnLength = 104, written = demo_block\<rparr>]\<rparr>\<rparr>"

text \<open>The order of the sorted view between an owner \<open>A\<close> and the owner \<open>B\<close> after it:
  more pairs first, then the executable name without regard to case, then the process
  id.\<close>

definition in_view_order :: "ZombieOwner_t \<Rightarrow> ZombieOwner_t \<Rightarrow> bool" where
  "in_view_order A B \<longleftrightarrow>
     length (zombieOwningInfo A) > length (zombieOwningInfo B) \<or>
     (length (zombieOwningInfo A) = length (zombieOwningInfo B) \<and>
        (wcsicmp (sExeName A) (sExeName B) < 0 \<or>
         (wcsicmp (sExeName A) (sExeName B) = 0 \<and> ZombieOwner_t.PID A \<le> ZombieOwner_t.PID B)))"

text \<open>
  The handle table of the process, as far as the events of a \<open>ZombieHandles\<close> object go:
  \<open>open_after S es\<close> is the set of its open handles after the events \<open>es\<close>, when \<open>S\<close>
  was open before. \<open>kernel_fresh S es\<close> is the kernel's part: a call that opens a handle
  returns one that is not null and not open at that time. \<open>closes_open S es\<close> is the
  program's part: every \<open>CloseHandle\<close> is given a handle that is open at that time, so
  none is closed twice.
\<close>

fun open_after :: "HANDLE set \<Rightarrow> handle_event list \<Rightarrow> HANDLE set" where
  "open_after S [] = S"
| "open_after S (Opened h # es) = open_after (insert h S) es"
| "open_after S (Closed h # es) = open_after (S - {h}) es"

fun kernel_fresh :: "HANDLE set \<Rightarrow> handle_event list \<Rightarrow> bool" where
  "kernel_fresh S [] \<longleftrightarrow> True"
| "kernel_fresh S (Opened h # es) \<longleftrightarrow> h \<noteq> 0 \<and> h \<notin> S \<and> kernel_fresh (insert h S) es"
| "kernel_fresh S (Closed h # es) \<longleftrightarrow> kernel_fresh (S - {h}) es"

fun closes_open :: "HANDLE set \<Rightarrow> handle_event list \<Rightarrow> bool" where
  "closes_open S [] \<longleftrightarrow> True"
| "closes_open S (Opened h # es) \<longleftrightarrow> closes_open (insert h S) es"
| "closes_open S (Closed h # es) \<longleftrightarrow> h \<in> S \<and> closes_open (S - {h}) es"

text \<open>The handle events of the sample discovery run, and the handles it retains.\<close>

definition demo_events :: "handle_event list" where
  "demo_events = [Opened 0x1C, Opened 0x10, Closed 0x1C, Opened 0x24, Closed 0x24,
                  Opened 0x14, Opened 0x18, Closed 0x14, Opened 0x20, Closed 0x20]"

text \<open>
  A snapshot whose data query fails with \<open>STATUS_ACCESS_DENIED\<close>: the block that
  \<open>HeapAlloc\<close> returned for the 125 bytes holds what was there before, here a word
  that reads as a count of 1000 and no entry.
\<close>

definition demo_garbage :: SYSTEM_HANDLE_INFORMATION_EX where
  "demo_garbage = \<lparr>NumberOfHandles = 1000, Handles = []\<rparr>"

definition demo_snapshot_query_fails :: snapshot_env where
  "demo_snapshot_query_fails = demo_snapshot\<lparr>steps :=
     [\<lparr>heapAlloc = Some demo_garbage, ntStat = 0xC0000022, returnLength = 100,
       written = demo_garbage\<rparr>]\<rparr>"

text \<open>
  The invariant of the enumeration loop on the handle table, for the handles \<open>S\<close> open
  when the acquisition began: every close so far was of an open handle, and the open
  handles are the keys of the handle lookup and the handle \<open>pending s\<close>, the previous
  process's when the loop is still to close it, which is not a key.
\<close>

definition pending :: "enum_state \<Rightarrow> HANDLE set" where
  "pending s = (if bClosePrevProcess s \<and> hPrevProcess s \<noteq> 0 then {hPrevProcess s} else {})"

definition handles_ok :: "HANDLE set \<Rightarrow> enum_state \<Rightarrow> bool" where
  "handles_ok S s \<longleftrightarrow>
     closes_open S (events s) \<and>
     open_after S (events s) = fst ` set (m_ZombieHandleLookup (zh s)) \<union> pending s \<and>
     pending s \<inter> fst ` set (m_ZombieHandleLookup (zh s)) = {}"

section \<open>The system handle snapshot\<close>

lemma size_no_wrap:
  fixes rl :: ULONG
  shows "\<not> rl + rl div 4 < rl \<longleftrightarrow> unat rl + unat rl div 4 < 2 ^ 32"
proof -
  have b: "unat rl < 2 ^ 32" using unsigned_less [of rl] by simp
  have u: "unat (rl + rl div 4) = (unat rl + unat rl div 4) mod 2 ^ 32"
    by (simp add: unat_word_ariths unat_div mod_simps)
  show ?thesis
  proof (cases "unat rl + unat rl div 4 < 2 ^ 32")
    case True
    then have "unat (rl + rl div 4) = unat rl + unat rl div 4" using u by simp
    then show ?thesis using True by (simp add: word_less_nat_alt)
  next
    case False
    then have "(unat rl + unat rl div 4) mod 2 ^ 32 = unat rl + unat rl div 4 - 2 ^ 32"
      using b by (simp add: mod_if)
    then have "unat (rl + rl div 4) < unat rl" using u b False by simp
    then show ?thesis using False by (simp add: word_less_nat_alt)
  qed
qed

lemma size_exact:
  fixes rl :: ULONG
  assumes "\<not> rl + rl div 4 < rl"
  shows "unat (rl + rl div 4) = unat rl + unat rl div 4"
proof -
  have "unat rl + unat rl div 4 < 2 ^ 32" using assms size_no_wrap by blast
  then show ?thesis by (simp add: unat_word_ariths unat_div mod_simps)
qed

lemma HandleInfo_None_iff:
  "HandleInfo a ix = None \<longleftrightarrow> Get a = None \<or> ix \<ge> AHS_NumberOfHandles a"
  by (simp add: HandleInfo_def AHS_NumberOfHandles_def split: option.splits)


lemma Alloc_Ok_size: "Alloc h n ha m = (Ok, m') \<Longrightarrow> m_nSize m' = n \<and> m_pMem m' \<noteq> None"
  by (auto simp: Alloc_def Dealloc_def Let_def split: option.splits if_splits prod.splits outcome.splits)

lemma Clear_None: "processHeapOk h \<Longrightarrow> Get (Clear h a) = None"
  by (auto simp: Clear_def Dealloc_def Get_def Let_def split: option.splits)

lemma Alloc_Failed_None: "processHeapOk h \<Longrightarrow> Alloc h n ha m = (Failed e, m') \<Longrightarrow> Get m' = None"
  by (auto simp: Alloc_def Dealloc_def Get_def Let_def split: option.splits if_splits)

lemma size_ok_Cons: "tr \<noteq> [] \<Longrightarrow> size_ok r tr e \<Longrightarrow> size_ok r (x # tr) e"
  by (auto simp: size_ok_def)

lemma status_distinct: "STATUS_INFO_LENGTH_MISMATCH \<noteq> STATUS_SUCCESS"
  by (simp add: STATUS_INFO_LENGTH_MISMATCH_def STATUS_SUCCESS_def)

text \<open>One pass of the retry loop either returns, or allocates and goes on.\<close>

lemma retry_loop_pass:
  assumes "retry_loop h rl (s # ss) a = (r, a', tr)"
  obtains (return) "tr = [(rl, rl + rl div 4)]" "r \<noteq> None"
      "r = Some Ok \<Longrightarrow> \<not> rl + rl div 4 < rl \<and> m_nSize a' = unat (rl + rl div 4) \<and> Get a' \<noteq> None"
      "rl + rl div 4 < rl \<Longrightarrow> r = Some (Failed IntegerOverflow)"
      "processHeapOk h \<Longrightarrow> r \<noteq> Some Ok \<Longrightarrow>
         r \<noteq> Some (Failed (SecondCallFailed (ntStat s) (returnLength s) (rl + rl div 4))) \<Longrightarrow>
         Get a' = None"
    | (again) a2 tr4 where "\<not> rl + rl div 4 < rl"
      "retry_loop h (returnLength s) ss a2 = (r, a', tr4)" "tr = (rl, rl + rl div 4) # tr4"
proof -
  let ?sz = "rl + rl div 4"
  obtain o2 a2 where al: "Alloc h (unat ?sz) (heapAlloc s) (Clear h a) = (o2, a2)"
    by (cases "Alloc h (unat ?sz) (heapAlloc s) (Clear h a)")
  let ?a3 = "a2\<lparr>m_pMem := Some (written s)\<rparr>"
  obtain r4 a4 tr4 where rec: "retry_loop h (returnLength s) ss ?a3 = (r4, a4, tr4)"
    by (cases "retry_loop h (returnLength s) ss ?a3")
  show thesis
  proof (cases "?sz < rl")
    case True
    then have "tr = [(rl, ?sz)]" "r = Some (Failed IntegerOverflow)" "a' = Clear h a"
      using assms by (simp_all add: Let_def)
    then show thesis using True return Clear_None by simp
  next
    case nov: False
    show thesis
    proof (cases o2)
      case (Failed e)
      then have "tr = [(rl, ?sz)]" "r = Some (Failed e)" "a' = a2"
        using assms nov al by (simp_all add: Let_def)
      then show thesis using nov return Alloc_Failed_None [OF _ al [unfolded Failed]] by simp
    next
      case Ok
      have sz2: "m_nSize a2 = unat ?sz" using Alloc_Ok_size al Ok by blast
      show thesis
      proof (cases "ntStat s = STATUS_SUCCESS")
        case True
        then have "tr = [(rl, ?sz)]" "r = Some Ok" "a' = ?a3"
          using assms nov al Ok by (simp_all add: Let_def)
        then show thesis using nov sz2 return by (simp add: Get_def)
      next
        case ns: False
        show thesis
        proof (cases "ntStat s = STATUS_INFO_LENGTH_MISMATCH")
          case True
          then have "r = r4" "a' = a4" "tr = (rl, ?sz) # tr4"
            using assms nov al Ok ns rec by (simp_all add: Let_def)
          then show thesis using nov rec again by simp
        next
          case False
          then have "tr = [(rl, ?sz)]"
              "r = Some (Failed (SecondCallFailed (ntStat s) (returnLength s) ?sz))"
            using assms nov al Ok ns by (simp_all add: Let_def)
          then show thesis using nov return by simp
        qed
      qed
    qed
  qed
qed

lemma retry_loop_nonempty: "retry_loop h rl (s # ss) a = (r, a', tr) \<Longrightarrow> tr \<noteq> []"
  by (erule retry_loop_pass) simp_all

lemma retry_loop_trace:
  "retry_loop h rl ss a = (r, a', tr) \<Longrightarrow> \<forall>e \<in> set tr. size_ok r tr e"
proof (induction ss arbitrary: rl a tr)
  case Nil
  then show ?case by simp
next
  case (Cons s ss)
  let ?sz = "rl + rl div 4"
  from Cons.prems show ?case
  proof (cases rule: retry_loop_pass)
    case return
    then show ?thesis using size_no_wrap [of rl] size_exact [of rl]
      by (auto simp: size_ok_def word_le_nat_alt)
  next
    case (again a2 tr4)
    have hd_ok: "size_ok r tr (rl, ?sz)"
      using again(1) size_no_wrap [of rl] size_exact [of rl]
      by (simp add: size_ok_def word_le_nat_alt)
    have ih: "\<forall>e \<in> set tr4. size_ok r tr4 e" using Cons.IH [OF again(2)] .
    show ?thesis
    proof
      fix e assume "e \<in> set tr"
      then consider "e = (rl, ?sz)" | "e \<in> set tr4" using again(3) by auto
      then show "size_ok r tr e"
      proof cases
        case 1 then show ?thesis using hd_ok by simp
      next
        case 2
        then have "tr4 \<noteq> []" by auto
        then show ?thesis using ih 2 again(3) size_ok_Cons by blast
      qed
    qed
  qed
qed

lemma retry_loop_success:
  "retry_loop h rl ss a = (Some Ok, a', tr) \<Longrightarrow>
     tr \<noteq> [] \<and> m_nSize a' = unat (snd (last tr)) \<and> fst (last tr) \<le> snd (last tr) \<and> Get a' \<noteq> None"
proof (induction ss arbitrary: rl a tr)
  case Nil
  then show ?case by simp
next
  case (Cons s ss)
  from Cons.prems show ?case
  proof (cases rule: retry_loop_pass)
    case return
    have "\<not> rl + rl div 4 < rl \<and> m_nSize a' = unat (rl + rl div 4) \<and> Get a' \<noteq> None"
      using return(3) by blast
    then have "rl \<le> rl + rl div 4" "m_nSize a' = unat (rl + rl div 4)" "Get a' \<noteq> None"
      by (simp_all only: not_less simp_thms)
    then show ?thesis using return(1) by simp
  next
    case (again a2 tr4)
    then show ?thesis using Cons.IH [OF again(2)] by simp
  qed
qed

lemma retry_loop_reported:
  "retry_loop h rl ss a = (r, a', tr) \<Longrightarrow> map fst tr = take (length tr) (rl # map returnLength ss)"
proof (induction ss arbitrary: rl a tr)
  case Nil
  then show ?case by simp
next
  case (Cons s ss)
  from Cons.prems show ?case
  proof (cases rule: retry_loop_pass)
    case return
    then show ?thesis by simp
  next
    case (again a2 tr4)
    then show ?thesis using Cons.IH [OF again(2)] by simp
  qed
qed


lemma retry_loop_failed_dealloc:
  "processHeapOk h \<Longrightarrow> retry_loop h rl ss a = (Some (Failed e), a', tr) \<Longrightarrow>
     \<forall>x y z. e \<noteq> SecondCallFailed x y z \<Longrightarrow> Get a' = None"
proof (induction ss arbitrary: rl a tr)
  case Nil
  then show ?case by simp
next
  case (Cons s ss)
  from Cons.prems(2) show ?case
  proof (cases rule: retry_loop_pass)
    case return
    then show ?thesis using Cons.prems(1,3) by simp
  next
    case (again a2 tr4)
    then show ?thesis using Cons.IH [OF Cons.prems(1) again(2) Cons.prems(3)] by simp
  qed
qed

text \<open>
  C8. In the retry loop of \<open>AllHandlesSystemwide::Update\<close> every size computation takes
  the requirement the kernel reported last (\<open>req\<close>) to \<open>req + req / 4\<close> in 32 bits. When
  the sum does not overflow, the size passed to the allocation is exactly that sum and
  at least \<open>req\<close>; when it overflows, the run ends there with the integer-overflow
  allocation error and, the process heap being there, with no buffer held. The requirements are the kernel's reports in their order, and after
  a successful run the buffer has the last computed size, which covers the last
  requirement reported before it.
\<close>

theorem Update_allocates_enough:
  assumes "AHS_Update env a = (r, a', tr)"
  shows "(\<forall>(req, sz) \<in> set tr.
            sz = req + req div 4 \<and>
            (unat req + unat req div 4 < 2 ^ 32 \<longrightarrow>
               req \<le> sz \<and> unat sz = unat req + unat req div 4) \<and>
            (2 ^ 32 \<le> unat req + unat req div 4 \<longrightarrow>
               r = Some (Failed IntegerOverflow) \<and> last tr = (req, sz))) \<and>
         map fst tr = take (length tr) (firstReturnLength env # map returnLength (steps env)) \<and>
         (r = Some Ok \<longrightarrow>
            tr \<noteq> [] \<and> m_nSize a' = unat (snd (last tr)) \<and> fst (last tr) \<le> snd (last tr)) \<and>
         (r = Some (Failed IntegerOverflow) \<and> processHeapOk (heap env) \<longrightarrow> Get a' = None)"
proof (cases "haveNtdll env \<and> haveNtQuerySystemInformation env
               \<and> firstStat env = STATUS_INFO_LENGTH_MISMATCH")
  case True
  then have rl: "retry_loop (heap env) (firstReturnLength env) (steps env) (Clear (heap env) a) = (r, a', tr)"
    using assms by (simp add: AHS_Update_def Let_def)
  have 1: "\<forall>e \<in> set tr. size_ok r tr e" using retry_loop_trace [OF rl] .
  have 2: "map fst tr = take (length tr) (firstReturnLength env # map returnLength (steps env))"
    using retry_loop_reported [OF rl] .
  have 3: "r = Some Ok \<longrightarrow>
            tr \<noteq> [] \<and> m_nSize a' = unat (snd (last tr)) \<and> fst (last tr) \<le> snd (last tr)"
    using retry_loop_success rl by blast
  from 1 have "\<forall>(req, sz) \<in> set tr.
            sz = req + req div 4 \<and>
            (unat req + unat req div 4 < 2 ^ 32 \<longrightarrow>
               req \<le> sz \<and> unat sz = unat req + unat req div 4) \<and>
            (2 ^ 32 \<le> unat req + unat req div 4 \<longrightarrow>
               r = Some (Failed IntegerOverflow) \<and> last tr = (req, sz))"
    by (fastforce simp: size_ok_def split: if_splits)
  moreover have "r = Some (Failed IntegerOverflow) \<and> processHeapOk (heap env) \<longrightarrow> Get a' = None"
    using retry_loop_failed_dealloc [of "heap env" _ _ _ IntegerOverflow a' tr] rl by auto
  ultimately show ?thesis using 2 3 by blast
next
  case False
  then have "tr = []" "r \<noteq> Some Ok" "r \<noteq> Some (Failed IntegerOverflow)"
    using assms by (auto simp: AHS_Update_def Let_def split: if_splits)
  then show ?thesis by simp
qed

lemma demo_run: "AHS_Update demo_snapshot HeapMem_init =
   (Some Ok, \<lparr>m_pMem = Some demo_table, m_nSize = 200\<rparr>, [(100, 125), (160, 200)])"
  by code_simp

lemma demo_run_overflow: "AHS_Update demo_snapshot_overflow HeapMem_init =
   (Some (Failed IntegerOverflow), HeapMem_init, [(0xF0000000, 0x2C000000)])"
  by code_simp

theorem Update_allocates_enough_witness:
  "AHS_Update demo_snapshot HeapMem_init =
     (Some Ok, \<lparr>m_pMem = Some demo_table, m_nSize = 200\<rparr>, [(100, 125), (160, 200)]) \<and>
   (100 :: ULONG) \<le> 125 \<and> (160 :: ULONG) \<le> 200 \<and>
   AHS_Update demo_snapshot_overflow HeapMem_init =
     (Some (Failed IntegerOverflow), HeapMem_init, [(0xF0000000, 0x2C000000)]) \<and>
   Get (HeapMem_init :: AllHandlesSystemwide) = None"
proof -
  have "processHeapOk (heap demo_snapshot_overflow)" by code_simp
  then show ?thesis
    using Update_allocates_enough [OF demo_run] Update_allocates_enough [OF demo_run_overflow]
      demo_run demo_run_overflow
    by simp
qed

text \<open>
  C10. On a new object, an \<open>Update\<close> whose data query fails with a status other than
  \<open>STATUS_INFO_LENGTH_MISMATCH\<close> returns in the \<open>default\<close> branch without \<open>Clear()\<close>:
  the object keeps the block of 125 bytes that the query did not fill. With what the
  block holds, \<open>NumberOfHandles()\<close> is 1000 and not 0, and \<open>HandleInfo(5)\<close> is not null
  though the block has no entry 5 (entry \<open>ix\<close> starts at byte \<open>16 + 40 * ix\<close>). An
  \<open>Update\<close> whose first call fails does leave the object without a block.
\<close>
theorem failed_data_query_keeps_block:
  "AHS_Update demo_snapshot_query_fails HeapMem_init =
     (Some (Failed (SecondCallFailed 0xC0000022 100 125)),
      \<lparr>m_pMem = Some demo_garbage, m_nSize = 125\<rparr>, [(100, 125)]) \<and>
   Get \<lparr>m_pMem = Some demo_garbage, m_nSize = 125\<rparr> = Some demo_garbage \<and>
   AHS_NumberOfHandles \<lparr>m_pMem = Some demo_garbage, m_nSize = 125\<rparr> = 1000 \<and>
   HandleInfo \<lparr>m_pMem = Some demo_garbage, m_nSize = 125\<rparr> 5 \<noteq> None \<and>
   length (Handles demo_garbage) = 0 \<and>
   Get (fst (snd (AHS_Update demo_snapshot_failing demo_held))) = None"
proof -
  have 1: "AHS_Update demo_snapshot_query_fails HeapMem_init =
     (Some (Failed (SecondCallFailed 0xC0000022 100 125)),
      \<lparr>m_pMem = Some demo_garbage, m_nSize = 125\<rparr>, [(100, 125)])"
    by code_simp
  have 2: "Get \<lparr>m_pMem = Some demo_garbage, m_nSize = 125\<rparr> = Some demo_garbage"
    by (simp add: Get_def)
  have 3: "AHS_NumberOfHandles \<lparr>m_pMem = Some demo_garbage, m_nSize = 125\<rparr> = 1000"
    by (simp add: AHS_NumberOfHandles_def Get_def demo_garbage_def)
  have 4: "HandleInfo \<lparr>m_pMem = Some demo_garbage, m_nSize = 125\<rparr> 5 \<noteq> None"
    by (simp add: HandleInfo_def Get_def demo_garbage_def)
  have 5: "length (Handles demo_garbage) = 0" by (simp add: demo_garbage_def)
  have 6: "Get (fst (snd (AHS_Update demo_snapshot_failing demo_held))) = None"
    by code_simp
  show ?thesis using 1 2 3 4 5 6 by blast
qed

section \<open>Zombie discovery\<close>

lemma set_update_cases:
  "(k', v') \<in> set (AList.update k v al) \<Longrightarrow> (k', v') = (k, v) \<or> (k', v') \<in> set al"
  by (induction al) (auto split: if_splits)

lemma add_threads_entries:
  "add_threads zi ts n l = (n', l') \<Longrightarrow> (k, v) \<in> set l' \<Longrightarrow>
     (k, v) \<in> set l \<or> (\<exists>tid. v = zi\<lparr>TID := tid\<rparr>)"
proof (induction ts arbitrary: n l)
  case Nil
  then show ?case by simp
next
  case (Cons t ts)
  obtain h tid where t: "t = (h, tid)" by (cases t)
  from Cons.prems(1) have "add_threads zi ts (n + 1) (AList.update h (zi\<lparr>TID := tid\<rparr>) l) = (n', l')"
    by (simp add: t)
  from Cons.IH [OF this Cons.prems(2)] show ?case
    by (auto dest: set_update_cases)
qed

lemma add_threads_distinct:
  "add_threads zi ts n l = (n', l') \<Longrightarrow> distinct (map fst l) \<Longrightarrow> distinct (map fst l')"
proof (induction ts arbitrary: n l)
  case Nil
  then show ?case by simp
next
  case (Cons t ts)
  obtain h tid where t: "t = (h, tid)" by (cases t)
  from Cons.prems(1) have "add_threads zi ts (n + 1) (AList.update h (zi\<lparr>TID := tid\<rparr>) l) = (n', l')"
    by (simp add: t)
  from Cons.IH [OF this] Cons.prems(2) show ?case
    by (simp add: distinct_update)
qed

text \<open>What \<open>record_zombie\<close> adds to the two lookups.\<close>

lemma record_zombie_unfold:
  obtains n l where
    "(if hProcessQI p \<noteq> 0
      then add_threads (zombieInfo_of p) (threads p) 0 (m_ZombieHandleLookup (zh s))
      else (0, m_ZombieHandleLookup (zh s))) = (n, l)"
    "m_ZombieHandleLookup (zh (record_zombie p s)) =
       AList.update (hThisProcess p) ((zombieInfo_of p)\<lparr>TID := 0, nThreads := n\<rparr>) l"
    "zombiePidLookup (record_zombie p s) =
       AList.update (BasicInfo_UniqueProcessId p) ((zombieInfo_of p)\<lparr>TID := 0, nThreads := n\<rparr>)
         (zombiePidLookup s)"
proof -
  obtain n l where nl: "(if hProcessQI p \<noteq> 0
                    then add_threads (zombieInfo_of p) (threads p) 0 (m_ZombieHandleLookup (zh s))
                    else (0, m_ZombieHandleLookup (zh s))) = (n, l)"
    by (cases "(if hProcessQI p \<noteq> 0
                    then add_threads (zombieInfo_of p) (threads p) 0 (m_ZombieHandleLookup (zh s))
                    else (0, m_ZombieHandleLookup (zh s)))")
  have "m_ZombieHandleLookup (zh (record_zombie p s)) =
          AList.update (hThisProcess p) ((zombieInfo_of p)\<lparr>TID := 0, nThreads := n\<rparr>) l"
       "zombiePidLookup (record_zombie p s) =
          AList.update (BasicInfo_UniqueProcessId p) ((zombieInfo_of p)\<lparr>TID := 0, nThreads := n\<rparr>)
            (zombiePidLookup s)"
    unfolding record_zombie_def Let_def nl by (simp_all add: zombieInfo_of_def)
  then show thesis using nl that by blast
qed

lemma record_zombie_handles:
  assumes "(k, v) \<in> set (m_ZombieHandleLookup (zh (record_zombie p s)))"
  shows "(k, v) \<in> set (m_ZombieHandleLookup (zh s)) \<or>
         (ZombieProcessThreadInfo.PID v = BasicInfo_UniqueProcessId p \<and> exitTime v = times_exitTime p)"
proof -
  obtain n l where nl: "(if hProcessQI p \<noteq> 0
      then add_threads (zombieInfo_of p) (threads p) 0 (m_ZombieHandleLookup (zh s))
      else (0, m_ZombieHandleLookup (zh s))) = (n, l)"
    and eq: "m_ZombieHandleLookup (zh (record_zombie p s)) =
       AList.update (hThisProcess p) ((zombieInfo_of p)\<lparr>TID := 0, nThreads := n\<rparr>) l"
    using record_zombie_unfold [of p s] by blast
  have l: "(k', v') \<in> set l \<Longrightarrow>
             (k', v') \<in> set (m_ZombieHandleLookup (zh s)) \<or> (\<exists>tid. v' = (zombieInfo_of p)\<lparr>TID := tid\<rparr>)"
    for k' v'
    using nl add_threads_entries [of "zombieInfo_of p" "threads p" 0 "m_ZombieHandleLookup (zh s)" n l k' v']
    by (auto split: if_splits)
  have "(k, v) = (hThisProcess p, (zombieInfo_of p)\<lparr>TID := 0, nThreads := n\<rparr>) \<or> (k, v) \<in> set l"
    using assms eq set_update_cases by metis
  then show ?thesis using l [of k v] by (auto simp: zombieInfo_of_def)
qed

lemma record_zombie_handles_distinct:
  assumes "distinct (map fst (m_ZombieHandleLookup (zh s)))"
  shows "distinct (map fst (m_ZombieHandleLookup (zh (record_zombie p s))))"
proof -
  obtain n l where nl: "(if hProcessQI p \<noteq> 0
      then add_threads (zombieInfo_of p) (threads p) 0 (m_ZombieHandleLookup (zh s))
      else (0, m_ZombieHandleLookup (zh s))) = (n, l)"
    and eq: "m_ZombieHandleLookup (zh (record_zombie p s)) =
       AList.update (hThisProcess p) ((zombieInfo_of p)\<lparr>TID := 0, nThreads := n\<rparr>) l"
    using record_zombie_unfold [of p s] by blast
  have l: "distinct (map fst l)"
    using nl assms add_threads_distinct [of "zombieInfo_of p" "threads p" 0 "m_ZombieHandleLookup (zh s)" n l]
    by (auto split: if_splits)
  show ?thesis using l eq by (simp add: distinct_update)
qed

lemma record_zombie_pids:
  "\<exists>v. zombiePidLookup (record_zombie p s) = AList.update (BasicInfo_UniqueProcessId p) v (zombiePidLookup s)
       \<and> ZombieProcessThreadInfo.PID v = BasicInfo_UniqueProcessId p \<and> exitTime v = times_exitTime p"
proof -
  obtain n where "zombiePidLookup (record_zombie p s) =
       AList.update (BasicInfo_UniqueProcessId p) ((zombieInfo_of p)\<lparr>TID := 0, nThreads := n\<rparr>)
         (zombiePidLookup s)"
    using record_zombie_unfold [of p s] by blast
  then show ?thesis by (auto simp: zombieInfo_of_def)
qed

text \<open>The enumeration step changes the lookups only through \<open>record_zombie\<close>.\<close>

lemma enum_step_cases:
  obtains (skip) "m_ZombieHandleLookup (zh (enum_step nAge now p s)) = m_ZombieHandleLookup (zh s)"
                 "zombiePidLookup (enum_step nAge now p s) = zombiePidLookup s"
  | (zombie) s2 where "0 \<noteq> times_exitTime p" "is_old_enough nAge now (times_exitTime p)"
                 "m_ZombieHandleLookup (zh s2) = m_ZombieHandleLookup (zh s)"
                 "zombiePidLookup s2 = zombiePidLookup s"
                 "m_ZombieHandleLookup (zh (enum_step nAge now p s)) = m_ZombieHandleLookup (zh (record_zombie p s2))"
                 "zombiePidLookup (enum_step nAge now p s) = zombiePidLookup (record_zombie p s2)"
proof (cases "basicInfoStat p = STATUS_SUCCESS \<and> IsProcessDeleting p \<and> 0 \<noteq> times_exitTime p
                \<and> is_old_enough nAge now (times_exitTime p)")
  case True
  let ?s0 = "s\<lparr>events := events s @ [Opened (hThisProcess p)]\<rparr>"
  let ?s1 = "(if bClosePrevProcess ?s0 \<and> hPrevProcess ?s0 \<noteq> 0
                then ?s0\<lparr>events := events ?s0 @ [Closed (hPrevProcess ?s0)]\<rparr> else ?s0)"
  let ?s2 = "?s1\<lparr>zh := (zh ?s1)\<lparr>ZombieHandles.m_nTotalProcesses :=
                                       ZombieHandles.m_nTotalProcesses (zh ?s1) + 1\<rparr>,
                  bClosePrevProcess := True\<rparr>"
  have "enum_step nAge now p s = (record_zombie p ?s2)\<lparr>hPrevProcess := hThisProcess p\<rparr>"
    using True by (simp add: enum_step_def Let_def)
  then show thesis using True zombie [of ?s2] by simp
next
  case False
  then show thesis using skip by (auto simp: enum_step_def Let_def)
qed

lemma lookups_ok_step:
  assumes "lookups_ok nAge now (m_ZombieHandleLookup (zh s)) (zombiePidLookup s)"
  shows "lookups_ok nAge now (m_ZombieHandleLookup (zh (enum_step nAge now p s)))
           (zombiePidLookup (enum_step nAge now p s))"
proof (cases rule: enum_step_cases [of nAge now p s])
  case skip
  then show ?thesis using assms by simp
next
  case (zombie s2)
  let ?l = "m_ZombieHandleLookup (zh s)" and ?pl = "zombiePidLookup s"
  let ?l' = "m_ZombieHandleLookup (zh (record_zombie p s2))" and ?pl' = "zombiePidLookup (record_zombie p s2)"
  obtain v where v: "?pl' = AList.update (BasicInfo_UniqueProcessId p) v ?pl"
      "ZombieProcessThreadInfo.PID v = BasicInfo_UniqueProcessId p" "exitTime v = times_exitTime p"
    using record_zombie_pids [of p s2] zombie(4) by auto
  have keys: "fst ` set ?pl' = {BasicInfo_UniqueProcessId p} \<union> fst ` set ?pl"
    using v(1) by (simp add: dom_update)
  have d1: "distinct (map fst ?l')"
    using record_zombie_handles_distinct [of s2 p] assms zombie(3) by (simp add: lookups_ok_def)
  have d2: "distinct (map fst ?pl')"
    using v(1) assms by (simp add: lookups_ok_def distinct_update)
  have h: "ZombieProcessThreadInfo.PID z \<in> fst ` set ?pl' \<and> exitTime z \<noteq> 0 \<and> is_old_enough nAge now (exitTime z)"
    if "(k, z) \<in> set ?l'" for k z
  proof -
    from record_zombie_handles [OF that] consider
      "(k, z) \<in> set ?l" | "ZombieProcessThreadInfo.PID z = BasicInfo_UniqueProcessId p \<and> exitTime z = times_exitTime p"
      using zombie(3) by auto
    then show ?thesis
    proof cases
      case 1
      then show ?thesis using assms keys by (fastforce simp: lookups_ok_def)
    next
      case 2
      then show ?thesis using keys zombie(1,2) by auto
    qed
  qed
  have pk: "ZombieProcessThreadInfo.PID z = k \<and> exitTime z \<noteq> 0 \<and> is_old_enough nAge now (exitTime z)"
    if "(k, z) \<in> set ?pl'" for k z
  proof -
    from that v(1) have "(k, z) = (BasicInfo_UniqueProcessId p, v) \<or> (k, z) \<in> set ?pl"
      using set_update_cases by metis
    then show ?thesis using v(2,3) zombie(1,2) assms by (fastforce simp: lookups_ok_def)
  qed
  show ?thesis
    unfolding zombie(5,6) lookups_ok_def using d1 d2 h pk by blast
qed

lemma lookups_ok_loop:
  "lookups_ok nAge now (m_ZombieHandleLookup (zh s)) (zombiePidLookup s) \<Longrightarrow>
   lookups_ok nAge now (m_ZombieHandleLookup (zh (enum_loop nAge now ps s)))
     (zombiePidLookup (enum_loop nAge now ps s))"
  by (induction ps arbitrary: s) (simp_all add: lookups_ok_step)

lemma Acquire_lookups_ok:
  assumes "AcquireNewHandlesToExistingZombies env nAge z = (r, z', pl, errs, cl)"
  shows "lookups_ok nAge (ulNow env) (m_ZombieHandleLookup z') pl"
proof (cases "haveNtdllModule env \<and> haveNtdllFunctions env")
  case True
  let ?ini = "\<lparr>zh = z\<lparr>ZombieHandles.m_nZombieProcesses := 0, ZombieHandles.m_nTotalProcesses := 0,
                      m_ZombieHandleLookup := []\<rparr>,
              zombiePidLookup = [], processEnumErrors = [],
              hPrevProcess = 0, bClosePrevProcess = False,
              events = map Closed (map fst (m_ZombieHandleLookup z))\<rparr>"
  have "z' = zh (enum_loop nAge (ulNow env) (processes env) ?ini)"
       "pl = zombiePidLookup (enum_loop nAge (ulNow env) (processes env) ?ini)"
    using assms True
    by (simp_all add: AcquireNewHandlesToExistingZombies_def ReleaseAcquiredHandles_def Let_def)
  moreover have "lookups_ok nAge (ulNow env) (m_ZombieHandleLookup (zh ?ini)) (zombiePidLookup ?ini)"
    by (simp add: lookups_ok_def)
  ultimately show ?thesis using lookups_ok_loop by blast
next
  case False
  then have "m_ZombieHandleLookup z' = []" "pl = []"
    using assms
    by (auto simp: AcquireNewHandlesToExistingZombies_def ReleaseAcquiredHandles_def Let_def split: if_splits)
  then show ?thesis by (simp add: lookups_ok_def)
qed

lemma is_old_enough_nat:
  assumes "is_old_enough nAge now ex" "nAge \<noteq> 0"
  shows "unat ex < unat now \<and> unat nAge \<le> (unat now - unat ex) div 10000000"
proof -
  from assms have lt: "ex < now" and ge: "nAge \<le> (now - ex) div 10000000"
    by (auto simp: is_old_enough_def)
  have "unat (now - ex) = unat now - unat ex"
    using lt by (simp add: unat_sub word_less_nat_alt word_le_nat_alt)
  then have "unat ((now - ex) div 10000000) = (unat now - unat ex) div 10000000"
    by (simp add: unat_div)
  then show ?thesis using lt ge by (simp add: word_less_nat_alt word_le_nat_alt)
qed

subsection \<open>The handle table during discovery\<close>

lemma open_after_append: "open_after S (xs @ ys) = open_after (open_after S xs) ys"
  by (induction S xs rule: open_after.induct) simp_all

lemma kernel_fresh_append:
  "kernel_fresh S (xs @ ys) \<longleftrightarrow> kernel_fresh S xs \<and> kernel_fresh (open_after S xs) ys"
  by (induction S xs rule: kernel_fresh.induct) simp_all

lemma closes_open_append:
  "closes_open S (xs @ ys) \<longleftrightarrow> closes_open S xs \<and> closes_open (open_after S xs) ys"
  by (induction S xs rule: closes_open.induct) simp_all

lemma open_after_opens: "open_after S (map Opened hs) = S \<union> set hs"
  by (induction hs arbitrary: S) simp_all

lemma closes_open_opens: "closes_open S (map Opened hs)"
  by (induction hs arbitrary: S) simp_all

lemma kernel_fresh_opens: "kernel_fresh S (map Opened hs) \<Longrightarrow> set hs \<inter> S = {}"
  by (induction hs arbitrary: S) auto

lemma open_after_closes: "open_after S (map Closed hs) = S - set hs"
  by (induction hs arbitrary: S) auto

lemma closes_open_closes: "distinct hs \<Longrightarrow> set hs \<subseteq> S \<Longrightarrow> closes_open S (map Closed hs)"
proof (induction hs arbitrary: S)
  case Nil
  then show ?case by simp
next
  case (Cons a hs)
  have "set hs \<subseteq> S - {a}" using Cons.prems by auto
  then have "closes_open (S - {a}) (map Closed hs)" using Cons.IH Cons.prems by simp
  then show ?case using Cons.prems by simp
qed

lemma kernel_fresh_closes: "kernel_fresh S (map Closed hs)"
  by (induction hs arbitrary: S) simp_all

lemma add_threads_keys:
  "fst ` set (snd (add_threads zi ts n l)) = fst ` set l \<union> fst ` set ts"
  by (induction zi ts n l rule: add_threads.induct) (auto simp: dom_update)

text \<open>The events of one zombie: the call for the parent's path, and the thread loop.\<close>

lemma parent_events:
  "snd (snd (GetParentProcessImagePathIfStillRunning p)) =
     (if hParentProcess p \<noteq> 0 then [Opened (hParentProcess p), Closed (hParentProcess p)] else [])"
  by (simp add: GetParentProcessImagePathIfStillRunning_def Let_def split: prod.splits)

lemma parent_events_balanced:
  assumes "kernel_fresh S (snd (snd (GetParentProcessImagePathIfStillRunning p)))"
  shows "closes_open S (snd (snd (GetParentProcessImagePathIfStillRunning p)))"
    and "open_after S (snd (snd (GetParentProcessImagePathIfStillRunning p))) = S"
  using assms unfolding parent_events by auto

lemma thread_events_balanced:
  assumes "kernel_fresh S (Opened q # map (\<lambda>t. Opened (fst t)) ts @ [Closed q])"
  shows "closes_open S (Opened q # map (\<lambda>t. Opened (fst t)) ts @ [Closed q])"
    and "open_after S (Opened q # map (\<lambda>t. Opened (fst t)) ts @ [Closed q]) = S \<union> fst ` set ts"
proof -
  have m: "map (\<lambda>t. Opened (fst t)) ts = map Opened (map fst ts)" by simp
  from assms have q: "q \<notin> S" and f: "kernel_fresh (insert q S) (map Opened (map fst ts))"
    by (simp_all add: kernel_fresh_append m del: map_map)
  from kernel_fresh_opens [OF f] have d: "q \<notin> fst ` set ts" by auto
  show "closes_open S (Opened q # map (\<lambda>t. Opened (fst t)) ts @ [Closed q])"
    unfolding m by (simp add: closes_open_append closes_open_opens open_after_opens del: map_map)
  show "open_after S (Opened q # map (\<lambda>t. Opened (fst t)) ts @ [Closed q]) = S \<union> fst ` set ts"
    unfolding m using q d by (auto simp: open_after_append open_after_opens simp del: map_map)
qed

lemma record_zombie_keys:
  "fst ` set (m_ZombieHandleLookup (zh (record_zombie p s))) =
     insert (hThisProcess p) (fst ` set (m_ZombieHandleLookup (zh s)) \<union>
        (if hProcessQI p \<noteq> 0 then fst ` set (threads p) else {}))"
proof -
  obtain n l where nl: "(if hProcessQI p \<noteq> 0
      then add_threads (zombieInfo_of p) (threads p) 0 (m_ZombieHandleLookup (zh s))
      else (0, m_ZombieHandleLookup (zh s))) = (n, l)"
    and eq: "m_ZombieHandleLookup (zh (record_zombie p s)) =
       AList.update (hThisProcess p) ((zombieInfo_of p)\<lparr>TID := 0, nThreads := n\<rparr>) l"
    using record_zombie_unfold [of p s] by blast
  have "fst ` set l = fst ` set (m_ZombieHandleLookup (zh s)) \<union>
        (if hProcessQI p \<noteq> 0 then fst ` set (threads p) else {})"
    using nl add_threads_keys [of "zombieInfo_of p" "threads p" 0 "m_ZombieHandleLookup (zh s)"]
    by (auto split: if_splits)
  then show ?thesis unfolding eq by (simp add: dom_update)
qed

lemma record_zombie_events:
  "events (record_zombie p s) =
     events s @ snd (snd (GetParentProcessImagePathIfStillRunning p)) @
       (if hProcessQI p \<noteq> 0
        then Opened (hProcessQI p) # map (\<lambda>t. Opened (fst t)) (threads p) @ [Closed (hProcessQI p)]
        else [])"
  by (simp add: record_zombie_def Let_def split: prod.splits)

lemma record_zombie_flag: "\<not> bClosePrevProcess (record_zombie p s)"
  by (simp add: record_zombie_def Let_def split: prod.splits)

lemma enum_step_events:
  obtains (skip)
      "events (enum_step nAge now p s) =
         events s @ Opened (hThisProcess p) # map Closed (if bClosePrevProcess s \<and> hPrevProcess s \<noteq> 0 then [hPrevProcess s] else [])"
      "m_ZombieHandleLookup (zh (enum_step nAge now p s)) = m_ZombieHandleLookup (zh s)"
      "bClosePrevProcess (enum_step nAge now p s)"
  | (zombie)
      "events (enum_step nAge now p s) =
         events s @ Opened (hThisProcess p) # map Closed (if bClosePrevProcess s \<and> hPrevProcess s \<noteq> 0 then [hPrevProcess s] else []) @
           snd (snd (GetParentProcessImagePathIfStillRunning p)) @
           (if hProcessQI p \<noteq> 0
            then Opened (hProcessQI p) # map (\<lambda>t. Opened (fst t)) (threads p) @ [Closed (hProcessQI p)]
            else [])"
      "fst ` set (m_ZombieHandleLookup (zh (enum_step nAge now p s))) =
         insert (hThisProcess p) (fst ` set (m_ZombieHandleLookup (zh s)) \<union>
            (if hProcessQI p \<noteq> 0 then fst ` set (threads p) else {}))"
      "\<not> bClosePrevProcess (enum_step nAge now p s)"
proof (cases "basicInfoStat p = STATUS_SUCCESS \<and> IsProcessDeleting p \<and> 0 \<noteq> times_exitTime p
                \<and> is_old_enough nAge now (times_exitTime p)")
  case True
  let ?s0 = "s\<lparr>events := events s @ [Opened (hThisProcess p)]\<rparr>"
  let ?s1 = "(if bClosePrevProcess ?s0 \<and> hPrevProcess ?s0 \<noteq> 0
                then ?s0\<lparr>events := events ?s0 @ [Closed (hPrevProcess ?s0)]\<rparr> else ?s0)"
  let ?s2 = "?s1\<lparr>zh := (zh ?s1)\<lparr>ZombieHandles.m_nTotalProcesses :=
                                       ZombieHandles.m_nTotalProcesses (zh ?s1) + 1\<rparr>,
                  bClosePrevProcess := True\<rparr>"
  have e: "enum_step nAge now p s = (record_zombie p ?s2)\<lparr>hPrevProcess := hThisProcess p\<rparr>"
    using True by (simp add: enum_step_def Let_def)
  have 1: "events (enum_step nAge now p s) =
         events s @ Opened (hThisProcess p) # map Closed (if bClosePrevProcess s \<and> hPrevProcess s \<noteq> 0 then [hPrevProcess s] else []) @
           snd (snd (GetParentProcessImagePathIfStillRunning p)) @
           (if hProcessQI p \<noteq> 0
            then Opened (hProcessQI p) # map (\<lambda>t. Opened (fst t)) (threads p) @ [Closed (hProcessQI p)]
            else [])"
    unfolding e by (simp add: record_zombie_events)
  have 2: "fst ` set (m_ZombieHandleLookup (zh (enum_step nAge now p s))) =
         insert (hThisProcess p) (fst ` set (m_ZombieHandleLookup (zh s)) \<union>
            (if hProcessQI p \<noteq> 0 then fst ` set (threads p) else {}))"
    unfolding e using record_zombie_keys [of p ?s2] by simp
  have 3: "\<not> bClosePrevProcess (enum_step nAge now p s)"
    unfolding e by (simp add: record_zombie_flag)
  show thesis using 1 2 3 by (rule zombie)
next
  case False
  have "events (enum_step nAge now p s) =
         events s @ Opened (hThisProcess p) # map Closed (if bClosePrevProcess s \<and> hPrevProcess s \<noteq> 0 then [hPrevProcess s] else [])"
      "m_ZombieHandleLookup (zh (enum_step nAge now p s)) = m_ZombieHandleLookup (zh s)"
      "bClosePrevProcess (enum_step nAge now p s)"
    using False by (auto simp: enum_step_def Let_def)
  then show thesis by (rule skip)
qed

lemma enum_step_hPrev: "hPrevProcess (enum_step nAge now p s) = hThisProcess p"
  by (simp add: enum_step_def Let_def)

text \<open>The first part of a pass: the new handle, and the close of the previous one.\<close>

lemma insert_swap_minus: "a \<notin> K \<Longrightarrow> h \<noteq> a \<Longrightarrow> insert h (insert a K) - {a} = insert h K"
  by blast

lemma step_head:
  assumes ok: "handles_ok S s"
    and fresh: "kernel_fresh (open_after S (events s))
                  (Opened h # map Closed (if bClosePrevProcess s \<and> hPrevProcess s \<noteq> 0 then [hPrevProcess s] else []))"
  shows "closes_open (open_after S (events s))
           (Opened h # map Closed (if bClosePrevProcess s \<and> hPrevProcess s \<noteq> 0 then [hPrevProcess s] else []))"
    and "open_after (open_after S (events s))
           (Opened h # map Closed (if bClosePrevProcess s \<and> hPrevProcess s \<noteq> 0 then [hPrevProcess s] else []))
         = insert h (fst ` set (m_ZombieHandleLookup (zh s)))"
    and "h \<noteq> 0" and "h \<notin> fst ` set (m_ZombieHandleLookup (zh s))"
proof -
  let ?K = "fst ` set (m_ZombieHandleLookup (zh s))"
  let ?hd = "Opened h # map Closed (if bClosePrevProcess s \<and> hPrevProcess s \<noteq> 0 then [hPrevProcess s] else [])"
  have "closes_open (open_after S (events s)) ?hd \<and>
        open_after (open_after S (events s)) ?hd = insert h ?K \<and> h \<noteq> 0 \<and> h \<notin> ?K"
  proof (cases "bClosePrevProcess s \<and> hPrevProcess s \<noteq> 0")
    case True
    then have p: "pending s = {hPrevProcess s}" by (simp add: pending_def)
    from ok have o: "open_after S (events s) = insert (hPrevProcess s) ?K" and n: "hPrevProcess s \<notin> ?K"
      unfolding handles_ok_def p by auto
    from fresh have f: "h \<noteq> 0" "h \<noteq> hPrevProcess s" "h \<notin> ?K"
      unfolding o using True by auto
    have 1: "closes_open (open_after S (events s)) ?hd"
      unfolding o using True by simp
    have "insert h (insert (hPrevProcess s) ?K) - {hPrevProcess s} = insert h ?K"
      using n f(2) by (rule insert_swap_minus)
    then have 2: "open_after (open_after S (events s)) ?hd = insert h ?K"
      using True by (simp add: o)
    show ?thesis using 1 2 f by blast
  next
    case False
    then have p: "pending s = {}" by (auto simp: pending_def)
    from ok have o: "open_after S (events s) = ?K"
      unfolding handles_ok_def p by auto
    from fresh have f: "h \<noteq> 0" "h \<notin> ?K"
      unfolding o using False by auto
    have 1: "closes_open (open_after S (events s)) ?hd"
      using False by auto
    have 2: "open_after (open_after S (events s)) ?hd = insert h ?K"
      unfolding o using False by auto
    show ?thesis using 1 2 f by blast
  qed
  then show "closes_open (open_after S (events s)) ?hd"
    and "open_after (open_after S (events s)) ?hd = insert h ?K"
    and "h \<noteq> 0" and "h \<notin> ?K"
    by blast+
qed

lemma handles_ok_step:
  assumes ok: "handles_ok S s"
    and fresh: "kernel_fresh S (events (enum_step nAge now p s))"
  shows "handles_ok S (enum_step nAge now p s)"
proof (cases rule: enum_step_events [of nAge now p s])
  case skip
  let ?hd = "Opened (hThisProcess p) # map Closed (if bClosePrevProcess s \<and> hPrevProcess s \<noteq> 0 then [hPrevProcess s] else [])"
  from fresh have f: "kernel_fresh (open_after S (events s)) ?hd"
    unfolding skip(1) by (simp add: kernel_fresh_append)
  note h = step_head [OF ok f]
  have c: "closes_open S (events s)" using ok by (simp add: handles_ok_def)
  have pd: "pending (enum_step nAge now p s) = {hThisProcess p}"
    using skip(3) h(3) by (simp add: pending_def enum_step_hPrev)
  show ?thesis
    unfolding handles_ok_def skip(1,2) pd closes_open_append open_after_append
    using c h by auto
next
  case zombie
  let ?hd = "Opened (hThisProcess p) # map Closed (if bClosePrevProcess s \<and> hPrevProcess s \<noteq> 0 then [hPrevProcess s] else [])"
  let ?par = "snd (snd (GetParentProcessImagePathIfStillRunning p))"
  let ?qi = "(if hProcessQI p \<noteq> 0
            then Opened (hProcessQI p) # map (\<lambda>t. Opened (fst t)) (threads p) @ [Closed (hProcessQI p)]
            else [])"
  let ?K = "fst ` set (m_ZombieHandleLookup (zh s))"
  have ev: "events (enum_step nAge now p s) = events s @ ?hd @ ?par @ ?qi"
    using zombie(1) by simp
  from fresh have f: "kernel_fresh (open_after S (events s)) ?hd"
    unfolding ev by (simp add: kernel_fresh_append)
  note h = step_head [OF ok f]
  from fresh have f2: "kernel_fresh (insert (hThisProcess p) ?K) ?par"
    unfolding ev kernel_fresh_append h(2) by blast
  note pa = parent_events_balanced [OF f2]
  from fresh have f3: "kernel_fresh (insert (hThisProcess p) ?K) ?qi"
    unfolding ev kernel_fresh_append open_after_append h(2) pa(2) by blast
  have qi: "closes_open (insert (hThisProcess p) ?K) ?qi \<and>
            open_after (insert (hThisProcess p) ?K) ?qi =
              insert (hThisProcess p) ?K \<union> (if hProcessQI p \<noteq> 0 then fst ` set (threads p) else {})"
  proof (cases "hProcessQI p \<noteq> 0")
    case True
    then show ?thesis using f3 thread_events_balanced [of "insert (hThisProcess p) ?K" "hProcessQI p" "threads p"]
      by simp
  next
    case False
    then show ?thesis by simp
  qed
  have c: "closes_open S (events s)" using ok by (simp add: handles_ok_def)
  have pd: "pending (enum_step nAge now p s) = {}"
    using zombie(3) by (simp add: pending_def)
  have 1: "closes_open S (events (enum_step nAge now p s))"
    unfolding ev closes_open_append open_after_append h(2) pa(2)
    using c h(1) pa(1) qi by blast
  have 2: "open_after S (events (enum_step nAge now p s)) =
             fst ` set (m_ZombieHandleLookup (zh (enum_step nAge now p s)))"
    unfolding ev open_after_append h(2) pa(2) zombie(2) using qi by auto
  show ?thesis unfolding handles_ok_def pd using 1 2 by simp
qed

lemma enum_step_events_prefix: "\<exists>ys. events (enum_step nAge now p s) = events s @ ys"
  by (cases rule: enum_step_events [of nAge now p s]) simp_all

lemma enum_loop_events_prefix: "\<exists>ys. events (enum_loop nAge now ps s) = events s @ ys"
proof (induction ps arbitrary: s)
  case Nil
  then show ?case by simp
next
  case (Cons p ps)
  from enum_step_events_prefix obtain ys where "events (enum_step nAge now p s) = events s @ ys" by blast
  moreover from Cons.IH obtain zs where
    "events (enum_loop nAge now ps (enum_step nAge now p s)) = events (enum_step nAge now p s) @ zs"
    by blast
  ultimately show ?case by simp
qed

lemma handles_ok_loop:
  "handles_ok S s \<Longrightarrow> kernel_fresh S (events (enum_loop nAge now ps s)) \<Longrightarrow>
   handles_ok S (enum_loop nAge now ps s)"
proof (induction ps arbitrary: s)
  case Nil
  then show ?case by simp
next
  case (Cons p ps)
  from enum_loop_events_prefix obtain zs where
    "events (enum_loop nAge now ps (enum_step nAge now p s)) = events (enum_step nAge now p s) @ zs"
    by blast
  with Cons.prems(2) have "kernel_fresh S (events (enum_step nAge now p s))"
    by (simp add: kernel_fresh_append)
  with Cons.prems(1) have "handles_ok S (enum_step nAge now p s)" by (rule handles_ok_step)
  with Cons.IH Cons.prems(2) show ?case by simp
qed


lemma Acquire_handles:
  assumes acq: "AcquireNewHandlesToExistingZombies env nAge z = (r, z', pl, errs, ev)"
    and d: "distinct (map fst (m_ZombieHandleLookup z))"
    and fresh: "kernel_fresh (fst ` set (m_ZombieHandleLookup z)) ev"
  shows "closes_open (fst ` set (m_ZombieHandleLookup z)) ev \<and>
         open_after (fst ` set (m_ZombieHandleLookup z)) ev = fst ` set (m_ZombieHandleLookup z')"
proof (cases "haveNtdllModule env \<and> haveNtdllFunctions env")
  case True
  let ?S = "fst ` set (m_ZombieHandleLookup z)"
  let ?ini = "\<lparr>zh = z\<lparr>ZombieHandles.m_nZombieProcesses := 0, ZombieHandles.m_nTotalProcesses := 0,
                      m_ZombieHandleLookup := []\<rparr>,
              zombiePidLookup = [], processEnumErrors = [],
              hPrevProcess = 0, bClosePrevProcess = False,
              events = map Closed (map fst (m_ZombieHandleLookup z))\<rparr>"
  let ?s = "enum_loop nAge (ulNow env) (processes env) ?ini"
  have z': "z' = zh ?s"
    and ev: "ev = events ?s @ map Closed (if bClosePrevProcess ?s \<and> hPrevProcess ?s \<noteq> 0 then [hPrevProcess ?s] else [])"
    using acq True
    by (auto simp add: AcquireNewHandlesToExistingZombies_def ReleaseAcquiredHandles_def Let_def
             simp del: map_map split: if_splits)
  have S: "?S = set (map fst (m_ZombieHandleLookup z))" by simp
  have "closes_open ?S (map Closed (map fst (m_ZombieHandleLookup z)))"
    unfolding S using d by (intro closes_open_closes) simp_all
  moreover have "open_after ?S (map Closed (map fst (m_ZombieHandleLookup z))) = {}"
    unfolding S open_after_closes by simp
  ultimately have i: "handles_ok ?S ?ini" by (simp add: handles_ok_def pending_def)
  from fresh have "kernel_fresh ?S (events ?s)" unfolding ev by (simp add: kernel_fresh_append)
  with i have ok: "handles_ok ?S ?s" by (rule handles_ok_loop)
  show ?thesis
  proof (cases "bClosePrevProcess ?s \<and> hPrevProcess ?s \<noteq> 0")
    case True
    then have p: "pending ?s = {hPrevProcess ?s}" by (simp add: pending_def)
    from ok have c: "closes_open ?S (events ?s)"
      and o: "open_after ?S (events ?s) = insert (hPrevProcess ?s) (fst ` set (m_ZombieHandleLookup (zh ?s)))"
      and n: "hPrevProcess ?s \<notin> fst ` set (m_ZombieHandleLookup (zh ?s))"
      unfolding handles_ok_def p by auto
    have e: "ev = events ?s @ [Closed (hPrevProcess ?s)]" using ev True by simp
    show ?thesis unfolding e z' closes_open_append open_after_append o using c n by simp
  next
    case False
    then have p: "pending ?s = {}" by (auto simp: pending_def)
    from ok have c: "closes_open ?S (events ?s)"
      and o: "open_after ?S (events ?s) = fst ` set (m_ZombieHandleLookup (zh ?s))"
      unfolding handles_ok_def p by auto
    have e: "ev = events ?s" using ev False by auto
    show ?thesis unfolding e z' using c o by simp
  qed
next
  case False
  let ?S = "fst ` set (m_ZombieHandleLookup z)"
  from False have z': "m_ZombieHandleLookup z' = []" and ev: "ev = map Closed (map fst (m_ZombieHandleLookup z))"
    using acq
    by (auto simp add: AcquireNewHandlesToExistingZombies_def ReleaseAcquiredHandles_def Let_def
             simp del: map_map split: if_splits)
  have S: "?S = set (map fst (m_ZombieHandleLookup z))" by simp
  have "closes_open ?S (map Closed (map fst (m_ZombieHandleLookup z)))"
    unfolding S using d by (intro closes_open_closes) simp_all
  moreover have "open_after ?S (map Closed (map fst (m_ZombieHandleLookup z))) = {}"
    unfolding S open_after_closes by simp
  ultimately show ?thesis unfolding ev z' by simp
qed

lemma Update_Impl_events:
  assumes "Update_Impl oenv nAge st = (Some res, st', evs)"
    and "AcquireNewHandlesToExistingZombies (discovery oenv) nAge ZombieHandles_init = (r, z', pl, errs, ev)"
  shows "evs = ev @ map Closed (snd (ReleaseAcquiredHandles z'))"
  using assms
  by (auto simp: Update_Impl_def Let_def split: outcome.splits option.splits prod.splits)

lemma demo_acquire:
  "AcquireNewHandlesToExistingZombies demo_discovery 3 ZombieHandles_init =
     (Ok, demo_handles, [(100, demo_zombie_info)], [], demo_events)"
  by code_simp

text \<open>
  C6. Every record that \<open>AcquireNewHandlesToExistingZombies\<close> produces, in the pid lookup
  and in the handle lookup, has a non-zero exit time, and either the threshold
  \<open>nAgeInSeconds\<close> is zero or the exit time lies before the start time of the run and
  the time between them, in whole seconds (units of 10 000 000 ticks), is at least the
  threshold.
\<close>
theorem zombies_meet_age_threshold:
  assumes "AcquireNewHandlesToExistingZombies env nAgeInSeconds z = (r, z', pidLookup, errs, cl)"
  shows "\<forall>zi \<in> snd ` set pidLookup \<union> snd ` set (m_ZombieHandleLookup z').
           exitTime zi \<noteq> 0 \<and>
           (nAgeInSeconds = 0 \<or>
            (unat (exitTime zi) < unat (ulNow env) \<and>
             unat nAgeInSeconds \<le> (unat (ulNow env) - unat (exitTime zi)) div 10000000))"
proof
  fix zi assume "zi \<in> snd ` set pidLookup \<union> snd ` set (m_ZombieHandleLookup z')"
  moreover have "lookups_ok nAgeInSeconds (ulNow env) (m_ZombieHandleLookup z') pidLookup"
    using Acquire_lookups_ok [OF assms] .
  ultimately have "exitTime zi \<noteq> 0 \<and> is_old_enough nAgeInSeconds (ulNow env) (exitTime zi)"
    by (fastforce simp: lookups_ok_def)
  then show "exitTime zi \<noteq> 0 \<and>
           (nAgeInSeconds = 0 \<or>
            (unat (exitTime zi) < unat (ulNow env) \<and>
             unat nAgeInSeconds \<le> (unat (ulNow env) - unat (exitTime zi)) div 10000000))"
    using is_old_enough_nat by blast
qed

theorem zombies_meet_age_threshold_witness:
  "AcquireNewHandlesToExistingZombies demo_discovery 3 ZombieHandles_init =
     (Ok, demo_handles, [(100, demo_zombie_info)], [], demo_events) \<and>
   exitTime demo_zombie_info \<noteq> 0 \<and>
   unat (3 :: ULONGLONG) \<le> (unat (ulNow demo_discovery) - unat (exitTime demo_zombie_info)) div 10000000"
proof -
  have "demo_zombie_info \<in> snd ` set [(100 :: ULONG_PTR, demo_zombie_info)] \<union>
          snd ` set (m_ZombieHandleLookup demo_handles)"
    by simp
  then show ?thesis
    using zombies_meet_age_threshold [OF demo_acquire] demo_acquire by fastforce
qed

text \<open>
  C9. Take a call of \<open>AcquireNewHandlesToExistingZombies\<close> on an object whose handles
  are open, with the kernel returning from every opening call a handle that is not
  null and not open at that time, and the call of \<open>ReleaseAcquiredHandles\<close> that
  follows it (the destructor). During the acquisition every \<open>CloseHandle\<close> is given a
  handle that is open, and the handles left open at its end are exactly the keys of
  the handle lookup. The release closes exactly these keys, each of them once, and
  empties the lookup; a second release closes nothing. Over the whole sequence no
  handle is closed when it is not open and none is left open. The handle events of
  the \<open>zombieHandles\<close> local of a run of \<open>Update_Impl\<close> that returns are this sequence.
\<close>
theorem retained_handles_released_once:
  assumes "AcquireNewHandlesToExistingZombies env nAgeInSeconds z = (r, z', pidLookup, errs, ev)"
    and "distinct (map fst (m_ZombieHandleLookup z))"
    and "kernel_fresh (fst ` set (m_ZombieHandleLookup z)) ev"
    and "ReleaseAcquiredHandles z' = (z'', cl)"
  shows "closes_open (fst ` set (m_ZombieHandleLookup z)) ev \<and>
         open_after (fst ` set (m_ZombieHandleLookup z)) ev = fst ` set (m_ZombieHandleLookup z') \<and>
         set cl = fst ` set (m_ZombieHandleLookup z') \<and> distinct cl \<and>
         m_ZombieHandleLookup z'' = [] \<and>
         ReleaseAcquiredHandles z'' = (z'', []) \<and>
         closes_open (fst ` set (m_ZombieHandleLookup z)) (ev @ map Closed cl) \<and>
         open_after (fst ` set (m_ZombieHandleLookup z)) (ev @ map Closed cl) = {} \<and>
         (\<forall>oenv st res st' evs.
            z = ZombieHandles_init \<and> discovery oenv = env \<and>
            Update_Impl oenv nAgeInSeconds st = (Some res, st', evs) \<longrightarrow>
              evs = ev @ map Closed cl)"
proof -
  let ?S = "fst ` set (m_ZombieHandleLookup z)" and ?K = "fst ` set (m_ZombieHandleLookup z')"
  have a: "closes_open ?S ev" and b: "open_after ?S ev = ?K"
    using Acquire_handles [OF assms(1,2,3)] by simp_all
  have d: "distinct (map fst (m_ZombieHandleLookup z'))"
    using Acquire_lookups_ok [OF assms(1)] by (simp add: lookups_ok_def)
  have cl: "cl = map fst (m_ZombieHandleLookup z')" and z'': "z'' = z'\<lparr>m_ZombieHandleLookup := []\<rparr>"
    using assms(4) by (auto simp: ReleaseAcquiredHandles_def)
  have 1: "set cl = ?K" "distinct cl" using cl d by simp_all
  have 2: "m_ZombieHandleLookup z'' = []" "ReleaseAcquiredHandles z'' = (z'', [])"
    using z'' by (simp_all add: ReleaseAcquiredHandles_def)
  have 3: "closes_open ?S (ev @ map Closed cl)"
    unfolding closes_open_append b using a 1 closes_open_closes [of cl ?K] by simp
  have 4: "open_after ?S (ev @ map Closed cl) = {}"
    unfolding open_after_append b open_after_closes using 1 by simp
  have 5: "evs = ev @ map Closed cl"
    if "z = ZombieHandles_init" "discovery oenv = env"
       "Update_Impl oenv nAgeInSeconds st = (Some res, st', evs)" for oenv st res st' evs
    using Update_Impl_events [OF that(3), of r z' pidLookup errs ev] assms(1,4) that(1,2) by simp
  show ?thesis using a b 1 2 3 4 5 by blast
qed

theorem retained_handles_released_once_witness:
  "AcquireNewHandlesToExistingZombies demo_discovery 3 ZombieHandles_init =
     (Ok, demo_handles, [(100, demo_zombie_info)], [], demo_events) \<and>
   kernel_fresh {} demo_events \<and>
   ReleaseAcquiredHandles demo_handles = (demo_handles\<lparr>m_ZombieHandleLookup := []\<rparr>, [0x18, 0x10]) \<and>
   closes_open {} demo_events \<and>
   open_after {} demo_events = {0x18, 0x10} \<and>
   ReleaseAcquiredHandles (demo_handles\<lparr>m_ZombieHandleLookup := []\<rparr>) =
     (demo_handles\<lparr>m_ZombieHandleLookup := []\<rparr>, []) \<and>
   closes_open {} (demo_events @ [Closed 0x18, Closed 0x10]) \<and>
   open_after {} (demo_events @ [Closed 0x18, Closed 0x10]) = {} \<and>
   fst (Update_Impl demo_env 3 ZombieOwners_init) = Some Ok \<and>
   snd (snd (Update_Impl demo_env 3 ZombieOwners_init)) = demo_events @ [Closed 0x18, Closed 0x10]"
proof -
  have i: "m_ZombieHandleLookup ZombieHandles_init = []" by (simp add: ZombieHandles_init_def)
  have d: "distinct (map fst (m_ZombieHandleLookup ZombieHandles_init))" by (simp add: i)
  have f0: "kernel_fresh {} demo_events" by (simp add: demo_events_def)
  then have f: "kernel_fresh (fst ` set (m_ZombieHandleLookup ZombieHandles_init)) demo_events"
    by (simp add: i)
  have rel: "ReleaseAcquiredHandles demo_handles = (demo_handles\<lparr>m_ZombieHandleLookup := []\<rparr>, [0x18, 0x10])"
    by (simp add: ReleaseAcquiredHandles_def demo_handles_def)
  have k: "fst ` set (m_ZombieHandleLookup demo_handles) = {0x18, 0x10}"
    by (simp add: demo_handles_def)
  have u: "fst (Update_Impl demo_env 3 ZombieOwners_init) = Some Ok" by code_simp
  have dv: "discovery demo_env = demo_discovery" by (simp add: demo_env_def)
  have c: "Update_Impl demo_env 3 ZombieOwners_init =
             (Some Ok, fst (snd (Update_Impl demo_env 3 ZombieOwners_init)),
              snd (snd (Update_Impl demo_env 3 ZombieOwners_init)))"
    using u by (metis prod.collapse)
  note t = retained_handles_released_once [OF demo_acquire d f rel]
  from t have 1: "closes_open {} demo_events" "open_after {} demo_events = {0x18, 0x10}"
    by (simp_all add: i k)
  from t have 2: "ReleaseAcquiredHandles (demo_handles\<lparr>m_ZombieHandleLookup := []\<rparr>) =
     (demo_handles\<lparr>m_ZombieHandleLookup := []\<rparr>, [])"
    by blast
  from t have 3: "closes_open {} (demo_events @ [Closed 0x18, Closed 0x10])"
       "open_after {} (demo_events @ [Closed 0x18, Closed 0x10]) = {}"
    by (simp_all add: i)
  from t dv c have 4: "snd (snd (Update_Impl demo_env 3 ZombieOwners_init)) = demo_events @ [Closed 0x18, Closed 0x10]"
    by (metis list.simps(8,9))
  show ?thesis using demo_acquire f0 rel 1 2 3 u 4 by simp
qed

section \<open>The ownership correlation\<close>

lemma pass2_as_entries:
  "fold (pass2_step env zhl al ahs) ixs acc =
   fold (attribute env zhl al)
     (concat (map (\<lambda>ix. case HandleInfo ahs (of_nat ix) of None \<Rightarrow> [] | Some e \<Rightarrow> [e]) ixs)) acc"
  by (induction ixs arbitrary: acc) (auto simp: pass2_step_def split: option.splits)

lemma pass1_as_entries:
  "fold (pass1_step cur zhl ahs) ixs acc =
   fold (resolve cur zhl)
     (concat (map (\<lambda>ix. case HandleInfo ahs (of_nat ix) of None \<Rightarrow> [] | Some e \<Rightarrow> [e]) ixs)) acc"
  by (induction ixs arbitrary: acc) (auto simp: pass1_step_def split: option.splits)

lemma pass2_entries: "pass2 env zhl al ahs acc = fold (attribute env zhl al) (snapshot_entries ahs) acc"
  by (simp add: pass2_def snapshot_entries_def pass2_as_entries)

lemma pass1_entries: "pass1 cur zhl ahs = fold (resolve cur zhl) (snapshot_entries ahs) []"
  by (simp add: pass1_def snapshot_entries_def pass1_as_entries)

lemma holdings_update:
  "holdings (AList.update k v owners) pid = (if pid = k then zombieOwningInfo v else holdings owners pid)"
  by (simp add: holdings_def update_conv')

lemma holdings_attribute:
  "holdings (fst (attribute env zhl al e acc)) pid =
     holdings (fst acc) pid @ (if UniqueProcessId e = pid then attributions env zhl al e else [])"
  by (auto simp: attribute_def attributions_def Let_def push_owning_def new_owner_def
        holdings_def update_conv' split: option.splits)

lemma holdings_fold:
  "holdings (fst (fold (attribute env zhl al) es acc)) pid =
     holdings (fst acc) pid @ concat (map (attributions env zhl al) (filter (\<lambda>e. UniqueProcessId e = pid) es))"
  by (induction es arbitrary: acc) (simp_all add: holdings_attribute)

text \<open>What a run of \<open>Update_Impl\<close> that returns leaves in the object.\<close>

lemma Update_Impl_cases:
  assumes "Update_Impl env nAge st = (r, st', ev)"
  obtains
    (discovery_failed) e zh pl errs cl where
      "AcquireNewHandlesToExistingZombies (discovery env) nAge ZombieHandles_init = (Failed e, zh, pl, errs, cl)"
      "r = Some (Failed e)"
      "st' = st\<lparr>m_owners := [], m_unexplained := [], m_nZombieProcessesAndThreads := 0,
                 ZombieOwners.m_nZombieProcesses := 0, ZombieOwners.m_nTotalProcesses := 0,
                 m_processEnumErrors := errs\<rparr>"
  | (snapshot_not_ok) zh pl errs cl ahs tr where
      "AcquireNewHandlesToExistingZombies (discovery env) nAge ZombieHandles_init = (Ok, zh, pl, errs, cl)"
      "AHS_Update (snapshot env) HeapMem_init = (r, ahs, tr)" "r \<noteq> Some Ok"
      "st' = st\<lparr>m_owners := [], m_unexplained := [],
                 m_nZombieProcessesAndThreads := length (m_ZombieHandleLookup zh),
                 ZombieOwners.m_nZombieProcesses := ZombieHandles.m_nZombieProcesses zh,
                 ZombieOwners.m_nTotalProcesses := ZombieHandles.m_nTotalProcesses zh,
                 m_processEnumErrors := errs\<rparr>"
  | (finished) zh pl errs cl ahs tr owners pids where
      "AcquireNewHandlesToExistingZombies (discovery env) nAge ZombieHandles_init = (Ok, zh, pl, errs, cl)"
      "AHS_Update (snapshot env) HeapMem_init = (Some Ok, ahs, tr)" "r = Some Ok"
      "pass2 env (m_ZombieHandleLookup zh) (pass1 (dwCurrPID env) (m_ZombieHandleLookup zh) ahs) ahs ([], pl)
         = (owners, pids)"
      "st' = st\<lparr>m_owners := owners,
                 m_ownersSorted := std_sort (compare_ptrs owners) (m_ownersSorted st @ map fst owners),
                 m_unexplained := map snd pids,
                 m_nZombieProcessesAndThreads := length (m_ZombieHandleLookup zh),
                 ZombieOwners.m_nZombieProcesses := ZombieHandles.m_nZombieProcesses zh,
                 ZombieOwners.m_nTotalProcesses := ZombieHandles.m_nTotalProcesses zh,
                 m_processEnumErrors := errs\<rparr>"
proof -
  obtain ro zh pl errs cl where
    acq: "AcquireNewHandlesToExistingZombies (discovery env) nAge ZombieHandles_init = (ro, zh, pl, errs, cl)"
    by (metis prod_cases5)
  show thesis
  proof (cases ro)
    case (Failed e)
    have "AcquireNewHandlesToExistingZombies (discovery env) nAge ZombieHandles_init = (Failed e, zh, pl, errs, cl)"
      "r = Some (Failed e)"
      "st' = st\<lparr>m_owners := [], m_unexplained := [], m_nZombieProcessesAndThreads := 0,
                 ZombieOwners.m_nZombieProcesses := 0, ZombieOwners.m_nTotalProcesses := 0,
                 m_processEnumErrors := errs\<rparr>"
      using assms acq Failed by (auto simp: Update_Impl_def Let_def)
    then show thesis by (rule discovery_failed)
  next
    case Ok
    obtain rs ahs tr where snap: "AHS_Update (snapshot env) HeapMem_init = (rs, ahs, tr)"
      by (metis prod_cases3)
    show thesis
    proof (cases "rs = Some Ok")
      case False
      have "AcquireNewHandlesToExistingZombies (discovery env) nAge ZombieHandles_init = (Ok, zh, pl, errs, cl)"
        "AHS_Update (snapshot env) HeapMem_init = (r, ahs, tr)" "r \<noteq> Some Ok"
        "st' = st\<lparr>m_owners := [], m_unexplained := [],
                 m_nZombieProcessesAndThreads := length (m_ZombieHandleLookup zh),
                 ZombieOwners.m_nZombieProcesses := ZombieHandles.m_nZombieProcesses zh,
                 ZombieOwners.m_nTotalProcesses := ZombieHandles.m_nTotalProcesses zh,
                 m_processEnumErrors := errs\<rparr>"
        using assms acq Ok snap False
        by (auto simp: Update_Impl_def Let_def split: option.splits outcome.splits)
      then show thesis by (rule snapshot_not_ok)
    next
      case True
      obtain owners pids where p2:
        "pass2 env (m_ZombieHandleLookup zh) (pass1 (dwCurrPID env) (m_ZombieHandleLookup zh) ahs) ahs ([], pl)
           = (owners, pids)"
        by (metis prod.exhaust)
      have "AcquireNewHandlesToExistingZombies (discovery env) nAge ZombieHandles_init = (Ok, zh, pl, errs, cl)"
        "AHS_Update (snapshot env) HeapMem_init = (Some Ok, ahs, tr)" "r = Some Ok"
        "st' = st\<lparr>m_owners := owners,
                 m_ownersSorted := std_sort (compare_ptrs owners) (m_ownersSorted st @ map fst owners),
                 m_unexplained := map snd pids,
                 m_nZombieProcessesAndThreads := length (m_ZombieHandleLookup zh),
                 ZombieOwners.m_nZombieProcesses := ZombieHandles.m_nZombieProcesses zh,
                 ZombieOwners.m_nTotalProcesses := ZombieHandles.m_nTotalProcesses zh,
                 m_processEnumErrors := errs\<rparr>"
        using assms acq Ok snap True p2 by (auto simp: Update_Impl_def Let_def)
      then show thesis using p2 finished by blast
    qed
  qed
qed

lemma attribute_owner_keys:
  "distinct (map fst (fst acc)) \<Longrightarrow> distinct (map fst (fst (attribute env zhl al e acc)))"
  by (auto simp: attribute_def Let_def push_owning_def distinct_update split: option.splits)

lemma fold_attribute_owner_keys:
  "distinct (map fst (fst acc)) \<Longrightarrow> distinct (map fst (fst (fold (attribute env zhl al) es acc)))"
  by (induction es arbitrary: acc) (simp_all add: attribute_owner_keys)

lemma attributed_pids_holdings:
  assumes "distinct (map fst owners)"
  shows "attributed_pids owners =
           {ZombieProcessThreadInfo.PID (zombieInfo oi) | pid oi. oi \<in> set (holdings owners pid)}"
proof -
  have "(pid, ow) \<in> set owners \<longleftrightarrow> map_of owners pid = Some ow" for pid ow
    using assms by simp
  then have eq: "(pid, ow) \<in> set owners \<longleftrightarrow> map_of owners pid = Some ow" for pid ow .
  show ?thesis
  proof (rule set_eqI, rule iffI)
    fix p assume "p \<in> attributed_pids owners"
    then obtain pid ow oi where "(pid, ow) \<in> set owners" "oi \<in> set (zombieOwningInfo ow)"
      "p = ZombieProcessThreadInfo.PID (zombieInfo oi)"
      by (auto simp: attributed_pids_def)
    then have "oi \<in> set (holdings owners pid)" "p = ZombieProcessThreadInfo.PID (zombieInfo oi)"
      using eq by (simp_all add: holdings_def)
    then show "p \<in> {ZombieProcessThreadInfo.PID (zombieInfo oi) | pid oi. oi \<in> set (holdings owners pid)}"
      by blast
  next
    fix p assume "p \<in> {ZombieProcessThreadInfo.PID (zombieInfo oi) | pid oi. oi \<in> set (holdings owners pid)}"
    then obtain pid oi where oi: "oi \<in> set (holdings owners pid)"
      and p: "p = ZombieProcessThreadInfo.PID (zombieInfo oi)" by blast
    then obtain ow where "map_of owners pid = Some ow" "oi \<in> set (zombieOwningInfo ow)"
      by (cases "map_of owners pid") (simp_all add: holdings_def)
    then have "(pid, ow) \<in> set owners" "oi \<in> set (zombieOwningInfo ow)" using eq by simp_all
    then show "p \<in> attributed_pids owners"
      using p by (force simp: attributed_pids_def)
  qed
qed

lemma delete_key_set: "fst ` set (AList.delete k al) = fst ` set al - {k}"
  by (induction al) auto

lemma attribute_pids_keys:
  "fst ` set (snd (attribute env zhl al e acc)) =
     fst ` set (snd acc) - (\<lambda>oi. ZombieProcessThreadInfo.PID (zombieInfo oi)) ` set (attributions env zhl al e)"
proof -
  have none: "map_of (snd acc) k = None \<Longrightarrow> fst ` set (snd acc) - {k} = fst ` set (snd acc)" for k
    by (simp add: map_of_eq_None_iff)
  show ?thesis
    using none
    by (auto simp: attribute_def attributions_def Let_def delete_key_set split: option.splits)
qed

lemma attribute_pids_subset: "set (snd (attribute env zhl al e acc)) \<subseteq> set (snd acc)"
  by (auto simp: attribute_def Let_def AList.delete_eq split: option.splits)

lemma fold_attribute_pids_keys:
  "fst ` set (snd (fold (attribute env zhl al) es acc)) =
     fst ` set (snd acc) -
       (\<Union>e \<in> set es. (\<lambda>oi. ZombieProcessThreadInfo.PID (zombieInfo oi)) ` set (attributions env zhl al e))"
proof (induction es arbitrary: acc)
  case Nil
  then show ?case by simp
next
  case (Cons e es)
  show ?case
    unfolding fold_simps Cons.IH attribute_pids_keys by auto
qed

lemma fold_attribute_pids_subset: "set (snd (fold (attribute env zhl al) es acc)) \<subseteq> set (snd acc)"
proof (induction es arbitrary: acc)
  case Nil
  then show ?case by simp
next
  case (Cons e es)
  then show ?case using attribute_pids_subset by fastforce
qed

lemma resolve_values:
  "map_of (resolve cur zhl e acc) a = Some z \<Longrightarrow> map_of acc a = Some z \<or> z \<in> snd ` set zhl"
  by (auto simp: resolve_def update_conv' split: if_splits option.splits dest: map_of_SomeD
           intro: rev_image_eqI)

lemma fold_resolve_values:
  "map_of (fold (resolve cur zhl) es acc) a = Some z \<Longrightarrow> map_of acc a = Some z \<or> z \<in> snd ` set zhl"
proof (induction es arbitrary: acc)
  case Nil
  then show ?case by simp
next
  case (Cons e es)
  then show ?case using resolve_values by fastforce
qed

lemma pass1_values: "map_of (pass1 cur zhl ahs) a = Some z \<Longrightarrow> z \<in> snd ` set zhl"
  using fold_resolve_values [of cur zhl "snapshot_entries ahs" "[]" a z]
  by (simp add: pass1_entries)

lemma attributions_values:
  "oi \<in> set (attributions env zhl al e) \<Longrightarrow> \<exists>a. map_of al a = Some (zombieInfo oi)"
  by (auto simp: attributions_def split: option.splits if_splits)

text \<open>The partition, for the two passes on the lookups that discovery returned.\<close>

lemma pass2_partition:
  assumes ok: "lookups_ok nAge now zhl pl"
    and p2: "pass2 env zhl (pass1 cur zhl ahs) ahs ([], pl) = (owners, pids)"
  shows "attributed_pids owners \<union> ZombieProcessThreadInfo.PID ` set (map snd pids) = set (map fst pl)"
    and "attributed_pids owners \<inter> ZombieProcessThreadInfo.PID ` set (map snd pids) = {}"
proof -
  let ?al = "pass1 cur zhl ahs"
  let ?es = "snapshot_entries ahs"
  let ?A = "\<Union>e \<in> set ?es. (\<lambda>oi. ZombieProcessThreadInfo.PID (zombieInfo oi)) ` set (attributions env zhl ?al e)"
  have fo: "fold (attribute env zhl ?al) ?es ([], pl) = (owners, pids)"
    using p2 by (simp add: pass2_entries)
  have d: "distinct (map fst owners)"
    using fold_attribute_owner_keys [of "([], pl)" env zhl ?al ?es] fo by simp
  have h: "holdings owners pid =
             concat (map (attributions env zhl ?al) (filter (\<lambda>e. UniqueProcessId e = pid) ?es))" for pid
    using holdings_fold [of env zhl ?al ?es "([], pl)" pid] fo by (simp add: holdings_def)
  have A: "attributed_pids owners = ?A"
    unfolding attributed_pids_holdings [OF d] h by fastforce
  have keys: "fst ` set pids = fst ` set pl - ?A"
    using fold_attribute_pids_keys [of env zhl ?al ?es "([], pl)"] fo by simp
  have sub: "set pids \<subseteq> set pl"
    using fold_attribute_pids_subset [of env zhl ?al ?es "([], pl)"] fo by simp
  have "ZombieProcessThreadInfo.PID z = k" if "(k, z) \<in> set pids" for k z
    using that sub ok by (fastforce simp: lookups_ok_def)
  then have un: "ZombieProcessThreadInfo.PID ` set (map snd pids) = fst ` set pids"
    by (force simp: image_iff)
  have "?A \<subseteq> fst ` set pl"
  proof
    fix p assume "p \<in> ?A"
    then obtain e oi where "oi \<in> set (attributions env zhl ?al e)"
      and p: "p = ZombieProcessThreadInfo.PID (zombieInfo oi)" by blast
    then obtain a where "map_of ?al a = Some (zombieInfo oi)" using attributions_values by blast
    then have "zombieInfo oi \<in> snd ` set zhl" by (rule pass1_values)
    then show "p \<in> fst ` set pl" using ok p by (fastforce simp: lookups_ok_def)
  qed
  then show "attributed_pids owners \<union> ZombieProcessThreadInfo.PID ` set (map snd pids) = set (map fst pl)"
    and "attributed_pids owners \<inter> ZombieProcessThreadInfo.PID ` set (map snd pids) = {}"
    unfolding A un keys by auto
qed

lemma Update_Ok_Impl:
  "Update env nAge (st, th) = (Some Ok, st', th') \<Longrightarrow> \<exists>ev. Update_Impl env nAge st = (Some Ok, st', ev)"
  by (auto simp: Update_def Let_def split: if_splits prod.splits)

lemma Update_Ok_parts:
  assumes "Update env nAge (st, th) = (Some Ok, st', th')"
  obtains pl pids where
    "lookups_ok nAge (ulNow (discovery env)) (zombieHandleLookup_of env nAge) pl"
    "discovered_pids env nAge = set (map fst pl)"
    "pass2 env (zombieHandleLookup_of env nAge) (zombieObjectAddrLookup_of env nAge) (snapshot_of env) ([], pl)
       = (m_owners st', pids)"
    "m_unexplained st' = map snd pids"
    "m_ownersSorted st' = std_sort (compare_ptrs (m_owners st')) (m_ownersSorted st @ map fst (m_owners st'))"
proof -
  from Update_Ok_Impl [OF assms] obtain ev where "Update_Impl env nAge st = (Some Ok, st', ev)" ..
  then show thesis
  proof (cases rule: Update_Impl_cases)
    case (finished zh pl errs cl ahs tr owners pids)
    have z: "zombieHandleLookup_of env nAge = m_ZombieHandleLookup zh"
      and a: "snapshot_of env = ahs"
      and d: "discovered_pids env nAge = set (map fst pl)"
      using finished(1,2) by (simp_all add: zombieHandleLookup_of_def snapshot_of_def discovered_pids_def)
    have "lookups_ok nAge (ulNow (discovery env)) (zombieHandleLookup_of env nAge) pl"
      using Acquire_lookups_ok [OF finished(1)] z by simp
    moreover have "pass2 env (zombieHandleLookup_of env nAge) (zombieObjectAddrLookup_of env nAge)
        (snapshot_of env) ([], pl) = (m_owners st', pids)"
      using finished(4,5) z a by (simp add: zombieObjectAddrLookup_of_def)
    ultimately show ?thesis using that d finished(5) by simp
  qed simp_all
qed

text \<open>
  C1. After a successful \<open>Update\<close> the zombie process ids of the pairs in
  \<open>OwnersCollection()\<close> together with those of \<open>UnexplainedZombies()\<close> are exactly the
  process ids that discovery found, and no process id is in both.
\<close>
theorem zombies_partitioned:
  assumes "Update env nAgeInSeconds (st, th) = (Some Ok, st', th')"
  shows "attributed_pids (OwnersCollection st') \<union>
           ZombieProcessThreadInfo.PID ` set (UnexplainedZombies st') = discovered_pids env nAgeInSeconds \<and>
         attributed_pids (OwnersCollection st') \<inter>
           ZombieProcessThreadInfo.PID ` set (UnexplainedZombies st') = {}"
proof -
  from assms obtain pl pids where
    ok: "lookups_ok nAgeInSeconds (ulNow (discovery env)) (zombieHandleLookup_of env nAgeInSeconds) pl"
    and d: "discovered_pids env nAgeInSeconds = set (map fst pl)"
    and p2: "pass2 env (zombieHandleLookup_of env nAgeInSeconds)
               (pass1 (dwCurrPID env) (zombieHandleLookup_of env nAgeInSeconds) (snapshot_of env))
               (snapshot_of env) ([], pl) = (m_owners st', pids)"
    and u: "m_unexplained st' = map snd pids"
    by (rule Update_Ok_parts) (simp add: zombieObjectAddrLookup_of_def)
  show ?thesis
    using pass2_partition [OF ok p2] d u
    by (simp add: OwnersCollection_def UnexplainedZombies_def)
qed

lemma demo_update_ok: "fst (Update demo_env 0 (ZombieOwners_init, demo_thread)) = Some Ok"
  by code_simp

lemma demo_update:
  "Update demo_env 0 (ZombieOwners_init, demo_thread) =
     (Some Ok, fst (snd (Update demo_env 0 (ZombieOwners_init, demo_thread))),
      snd (snd (Update demo_env 0 (ZombieOwners_init, demo_thread))))"
  using demo_update_ok by (metis prod.collapse)

theorem zombies_partitioned_witness:
  "fst (Update demo_env 0 (ZombieOwners_init, demo_thread)) = Some Ok \<and>
   discovered_pids demo_env 0 = {100, 104} \<and>
   attributed_pids (OwnersCollection (fst (snd (Update demo_env 0 (ZombieOwners_init, demo_thread))))) = {100} \<and>
   ZombieProcessThreadInfo.PID `
     set (UnexplainedZombies (fst (snd (Update demo_env 0 (ZombieOwners_init, demo_thread))))) = {104}"
proof -
  have a: "attributed_pids (OwnersCollection (fst (snd (Update demo_env 0 (ZombieOwners_init, demo_thread))))) = {100}"
    by code_simp
  have d: "discovered_pids demo_env 0 = {100, 104}"
    by code_simp
  let ?U = "ZombieProcessThreadInfo.PID `
     set (UnexplainedZombies (fst (snd (Update demo_env 0 (ZombieOwners_init, demo_thread)))))"
  have p: "{100} \<union> ?U = {100, 104}" "{100} \<inter> ?U = {}"
    using zombies_partitioned [OF demo_update] a d by simp_all
  have "?U = ({100} \<union> ?U) - {100}" using p(2) by blast
  also have "\<dots> = {100, 104} - {100}" using p(1) by simp
  also have "\<dots> = {104}" by simp
  finally show ?thesis using demo_update_ok a d by simp
qed

text \<open>
  C2. After a successful \<open>Update\<close> the pairs of every owner record are the attributions
  of the snapshot entries of that process, in snapshot order. So for a snapshot entry
  whose object address is in the address lookup: when it belongs to the current process
  and its handle value is in discovery's handle lookup, the record of its process holds
  no pair with its handle value; in every other case, also in the current process, the
  record of its process holds its pair.
\<close>
theorem attribution_rule:
  assumes "Update env nAgeInSeconds (st, th) = (Some Ok, st', th')"
  shows "(\<forall>pid. holdings (OwnersCollection st') pid =
            concat (map (attributions env (zombieHandleLookup_of env nAgeInSeconds)
                           (zombieObjectAddrLookup_of env nAgeInSeconds))
                      (filter (\<lambda>e. UniqueProcessId e = pid) (snapshot_entries (snapshot_of env))))) \<and>
         (\<forall>e \<in> set (snapshot_entries (snapshot_of env)).
            \<forall>z. map_of (zombieObjectAddrLookup_of env nAgeInSeconds) (Object e) = Some z \<longrightarrow>
              (if UniqueProcessId e = ucast (dwCurrPID env) \<and>
                  map_of (zombieHandleLookup_of env nAgeInSeconds) (HandleValue e) \<noteq> None
               then \<forall>oi \<in> set (holdings (OwnersCollection st') (UniqueProcessId e)).
                      handleValue oi \<noteq> HandleValue e
               else \<lparr>handleValue = HandleValue e, zombieInfo = z\<rparr>
                      \<in> set (holdings (OwnersCollection st') (UniqueProcessId e))))"
proof -
  let ?zhl = "zombieHandleLookup_of env nAgeInSeconds"
  let ?al = "zombieObjectAddrLookup_of env nAgeInSeconds"
  let ?es = "snapshot_entries (snapshot_of env)"
  from assms obtain pl pids where
    p2: "pass2 env ?zhl ?al (snapshot_of env) ([], pl) = (m_owners st', pids)"
    by (rule Update_Ok_parts)
  have h: "holdings (OwnersCollection st') pid =
             concat (map (attributions env ?zhl ?al) (filter (\<lambda>e. UniqueProcessId e = pid) ?es))" for pid
    using holdings_fold [of env ?zhl ?al ?es "([], pl)" pid] p2
    by (simp add: pass2_entries holdings_def OwnersCollection_def)
  have own: "handleValue oi \<noteq> HandleValue e"
    if "UniqueProcessId e = ucast (dwCurrPID env)" "map_of ?zhl (HandleValue e) \<noteq> None"
       "oi \<in> set (holdings (OwnersCollection st') (UniqueProcessId e))" for e oi
  proof -
    from that(3) obtain e' where e': "UniqueProcessId e' = UniqueProcessId e"
        "oi \<in> set (attributions env ?zhl ?al e')"
      unfolding h by auto
    then have "map_of ?zhl (HandleValue e') = None" "handleValue oi = HandleValue e'"
      using that(1) by (auto simp: attributions_def split: option.splits if_splits)
    then show ?thesis using that(2) by auto
  qed
  have other: "\<lparr>handleValue = HandleValue e, zombieInfo = z\<rparr> \<in> set (holdings (OwnersCollection st') (UniqueProcessId e))"
    if "e \<in> set ?es" "map_of ?al (Object e) = Some z"
       "\<not> (UniqueProcessId e = ucast (dwCurrPID env) \<and> map_of ?zhl (HandleValue e) \<noteq> None)" for e z
  proof -
    have "\<lparr>handleValue = HandleValue e, zombieInfo = z\<rparr> \<in> set (attributions env ?zhl ?al e)"
      using that(2,3) by (auto simp: attributions_def)
    then show ?thesis unfolding h using that(1) by auto
  qed
  show ?thesis using h own other by (simp only: split: if_split) blast
qed

theorem attribution_rule_witness:
  "fst (Update demo_env 0 (ZombieOwners_init, demo_thread)) = Some Ok \<and>
   map handleValue
     (holdings (OwnersCollection (fst (snd (Update demo_env 0 (ZombieOwners_init, demo_thread))))) 1) = [0x30] \<and>
   map handleValue
     (holdings (OwnersCollection (fst (snd (Update demo_env 0 (ZombieOwners_init, demo_thread))))) 7) = [0x44, 0x48] \<and>
   map handleValue
     (holdings (OwnersCollection (fst (snd (Update demo_env 0 (ZombieOwners_init, demo_thread))))) 9) = [0x10]"
proof -
  have e: "snapshot_entries (snapshot_of demo_env) = Handles demo_correlation_table"
    by code_simp
  have 1: "concat (map (attributions demo_env (zombieHandleLookup_of demo_env 0) (zombieObjectAddrLookup_of demo_env 0))
             (filter (\<lambda>e. UniqueProcessId e = 1) (Handles demo_correlation_table))) =
           [\<lparr>handleValue = 0x30, zombieInfo = demo_zombie_info\<rparr>]"
    by code_simp
  have 7: "map handleValue (concat (map (attributions demo_env (zombieHandleLookup_of demo_env 0) (zombieObjectAddrLookup_of demo_env 0))
             (filter (\<lambda>e. UniqueProcessId e = 7) (Handles demo_correlation_table)))) = [0x44, 0x48]"
    by code_simp
  have 9: "map handleValue (concat (map (attributions demo_env (zombieHandleLookup_of demo_env 0) (zombieObjectAddrLookup_of demo_env 0))
             (filter (\<lambda>e. UniqueProcessId e = 9) (Handles demo_correlation_table)))) = [0x10]"
    by code_simp
  show ?thesis
    using attribution_rule [OF demo_update] demo_update_ok e 1 7 9 by simp
qed

section \<open>The sorted view and the failure paths\<close>

lemma towlower_zero: "towlower c = towlower 0 \<longleftrightarrow> c = 0"
proof -
  have "c + 0x20 \<noteq> 0" if "0x41 \<le> c" "c \<le> 0x5A"
  proof -
    have "unat c \<le> 90" using that(2) by (simp add: word_le_nat_alt)
    then have "unat (c + 0x20) = unat c + 32" by (simp add: unat_word_ariths)
    then show ?thesis using unat_eq_zero by fastforce
  qed
  then show ?thesis by (auto simp: towlower_def)
qed

lemma wcsicmp_swap: "wcsicmp b a = - wcsicmp a b"
proof (induction a b rule: wcsicmp.induct)
  case (4 a as b bs)
  then show ?case using towlower_zero [of a] towlower_zero [of b] by auto
qed simp_all

lemma not_before_in_view_order: "\<not> ZombieOwnerComparator B A \<Longrightarrow> in_view_order A B"
  using wcsicmp_swap [of "sExeName B" "sExeName A"]
  by (auto simp: ZombieOwnerComparator_def in_view_order_def Let_def split: if_splits)

lemma ZombieOwnerComparator_asym: "ZombieOwnerComparator A B \<Longrightarrow> \<not> ZombieOwnerComparator B A"
  using wcsicmp_swap [of "sExeName B" "sExeName A"]
  by (auto simp: ZombieOwnerComparator_def Let_def split: if_splits)

lemma set_insert_by: "set (insert_by lt x xs) = insert x (set xs)"
  by (induction xs) auto

lemma set_std_sort: "set (std_sort lt xs) = set xs"
  by (induction xs) (simp_all add: set_insert_by)

lemma length_insert_by: "length (insert_by lt x xs) = Suc (length xs)"
  by (induction xs) auto

lemma length_std_sort: "length (std_sort lt xs) = length xs"
  by (induction xs) (simp_all add: length_insert_by)

lemma hd_insert_by: "hd (insert_by lt x xs) = (if xs \<noteq> [] \<and> lt (hd xs) x then hd xs else x)"
  by (cases xs) auto

lemma insert_by_nonempty: "insert_by lt x xs \<noteq> []"
  by (cases xs) auto

lemma successively_insert_by:
  assumes "\<And>a b. a \<in> S \<Longrightarrow> b \<in> S \<Longrightarrow> lt a b \<Longrightarrow> \<not> lt b a"
  shows "x \<in> S \<Longrightarrow> set xs \<subseteq> S \<Longrightarrow> successively (\<lambda>a b. \<not> lt b a) xs \<Longrightarrow>
           successively (\<lambda>a b. \<not> lt b a) (insert_by lt x xs)"
proof (induction xs)
  case Nil
  then show ?case by simp
next
  case (Cons y ys)
  show ?case
  proof (cases "lt y x")
    case True
    have "successively (\<lambda>a b. \<not> lt b a) ys"
      using Cons.prems(3) by (auto simp: successively_Cons)
    then have tl: "successively (\<lambda>a b. \<not> lt b a) (insert_by lt x ys)"
      using Cons.IH Cons.prems(1,2) by simp
    have "\<not> lt x y" using assms [of y x] Cons.prems True by simp
    moreover have "ys \<noteq> [] \<Longrightarrow> \<not> lt (hd ys) y"
      using Cons.prems(3) by (simp add: successively_Cons)
    ultimately have "\<not> lt (hd (insert_by lt x ys)) y"
      by (simp add: hd_insert_by)
    then show ?thesis using True tl by (simp add: successively_Cons insert_by_nonempty)
  next
    case False
    then show ?thesis using Cons.prems(3) by simp
  qed
qed

lemma successively_std_sort:
  assumes "\<And>a b. a \<in> S \<Longrightarrow> b \<in> S \<Longrightarrow> lt a b \<Longrightarrow> \<not> lt b a"
  shows "set xs \<subseteq> S \<Longrightarrow> successively (\<lambda>a b. \<not> lt b a) (std_sort lt xs)"
proof (induction xs)
  case Nil
  then show ?case by simp
next
  case (Cons x xs)
  then show ?case
    using successively_insert_by [of S lt x "std_sort lt xs"] assms
    by (simp add: set_std_sort)
qed

lemma successively_nth: "successively P xs \<Longrightarrow> Suc i < length xs \<Longrightarrow> P (xs ! i) (xs ! Suc i)"
proof (induction xs arbitrary: i)
  case Nil
  then show ?case by simp
next
  case (Cons x xs)
  show ?case
  proof (cases i)
    case 0
    then show ?thesis using Cons.prems by (cases xs) simp_all
  next
    case (Suc j)
    then have "xs \<noteq> []" using Cons.prems(2) by auto
    then have "successively P xs" using Cons.prems(1) by (simp add: successively_Cons)
    then show ?thesis using Cons.IH [of j] Cons.prems(2) Suc by simp
  qed
qed

lemma compare_ptrs_valid:
  assumes "map_of owners a = Some A" "map_of owners b = Some B"
  shows "compare_ptrs owners a b = ZombieOwnerComparator A B"
  using assms by (simp add: compare_ptrs_def)

lemma key_has_owner: "p \<in> fst ` set owners \<Longrightarrow> \<exists>A. map_of owners p = Some A"
  by (cases "map_of owners p") (simp_all add: map_of_eq_None_iff)

lemma Update_appends_to_sorted:
  assumes "Update env nAge (st, th) = (Some Ok, st', th')"
  shows "length (m_ownersSorted st') = length (m_ownersSorted st) + length (m_owners st')"
proof -
  from assms obtain pl pids where
    "m_ownersSorted st' = std_sort (compare_ptrs (m_owners st')) (m_ownersSorted st @ map fst (m_owners st'))"
    by (rule Update_Ok_parts)
  then show ?thesis by (simp add: length_std_sort)
qed

text \<open>
  C7. After a successful \<open>Update\<close> on an object whose sorted view was empty (a new
  object), the sorted view has one pointer for each owner record, and for every pair of
  neighbours, \<open>A\<close> before \<open>B\<close>: \<open>A\<close> holds more pairs than \<open>B\<close>; or they hold equally many
  and the executable name of \<open>A\<close> is before that of \<open>B\<close> without regard to case; or
  the names are equal in that comparison and the process id of \<open>A\<close> is at most that of
  \<open>B\<close>. The last three lines of the statement are the same order in the wording of the
  specification.
\<close>
theorem sorted_view_in_order:
  assumes "Update env nAgeInSeconds (st, th) = (Some Ok, st', th')"
    and "OwnersCollectionSorted st = []"
  shows "set (OwnersCollectionSorted st') = fst ` set (OwnersCollection st') \<and>
         length (OwnersCollectionSorted st') = length (OwnersCollection st') \<and>
         (\<forall>i. Suc i < length (OwnersCollectionSorted st') \<longrightarrow>
            (\<exists>A B. map_of (OwnersCollection st') (OwnersCollectionSorted st' ! i) = Some A \<and>
                   map_of (OwnersCollection st') (OwnersCollectionSorted st' ! Suc i) = Some B \<and>
                   in_view_order A B \<and>
                   (length (zombieOwningInfo A) > length (zombieOwningInfo B) \<or>
                    (length (zombieOwningInfo A) = length (zombieOwningInfo B) \<and>
                       wcsicmp (sExeName A) (sExeName B) \<le> 0) \<or>
                    (wcsicmp (sExeName A) (sExeName B) = 0 \<and>
                       ZombieOwner_t.PID A \<le> ZombieOwner_t.PID B))))"
proof -
  let ?owners = "m_owners st'"
  let ?lt = "compare_ptrs ?owners"
  let ?S = "fst ` set ?owners"
  from assms(1) obtain pl pids where
    "m_ownersSorted st' = std_sort ?lt (m_ownersSorted st @ map fst ?owners)"
    by (rule Update_Ok_parts)
  then have sorted: "m_ownersSorted st' = std_sort ?lt (map fst ?owners)"
    using assms(2) by (simp add: OwnersCollectionSorted_def)
  have s: "set (m_ownersSorted st') = ?S" by (simp add: sorted set_std_sort)
  have l: "length (m_ownersSorted st') = length ?owners" by (simp add: sorted length_std_sort)
  have asym: "\<not> ?lt b a" if a: "a \<in> ?S" and b: "b \<in> ?S" and ab: "?lt a b" for a b
  proof -
    obtain A where A: "map_of ?owners a = Some A" using key_has_owner [OF a] ..
    obtain B where B: "map_of ?owners b = Some B" using key_has_owner [OF b] ..
    note AB = A B
    then have "ZombieOwnerComparator A B" using ab by (simp add: compare_ptrs_valid)
    then have "\<not> ZombieOwnerComparator B A" by (rule ZombieOwnerComparator_asym)
    then show ?thesis using AB by (simp add: compare_ptrs_valid)
  qed
  have "successively (\<lambda>a b. \<not> ?lt b a) (std_sort ?lt (map fst ?owners))"
  proof (rule successively_std_sort [of ?S])
    show "\<not> ?lt b a" if "a \<in> ?S" "b \<in> ?S" "?lt a b" for a b
      using that by (rule asym)
    show "set (map fst ?owners) \<subseteq> ?S" by simp
  qed
  then have suc: "successively (\<lambda>a b. \<not> ?lt b a) (m_ownersSorted st')"
    by (simp only: sorted)
  have adj: "\<exists>A B. map_of ?owners (m_ownersSorted st' ! i) = Some A \<and>
                   map_of ?owners (m_ownersSorted st' ! Suc i) = Some B \<and> in_view_order A B"
    if i: "Suc i < length (m_ownersSorted st')" for i
  proof -
    have m: "m_ownersSorted st' ! i \<in> ?S" "m_ownersSorted st' ! Suc i \<in> ?S"
      using i s nth_mem [of i "m_ownersSorted st'"] nth_mem [of "Suc i" "m_ownersSorted st'"]
      by auto
    obtain A where A: "map_of ?owners (m_ownersSorted st' ! i) = Some A"
      using key_has_owner [OF m(1)] ..
    obtain B where B: "map_of ?owners (m_ownersSorted st' ! Suc i) = Some B"
      using key_has_owner [OF m(2)] ..
    note AB = A B
    have "\<not> ?lt (m_ownersSorted st' ! Suc i) (m_ownersSorted st' ! i)"
      using successively_nth [OF suc i] .
    then have "\<not> ZombieOwnerComparator B A" using AB by (simp add: compare_ptrs_valid)
    then have "in_view_order A B" by (rule not_before_in_view_order)
    then show ?thesis using AB by blast
  qed
  have weaker: "in_view_order A B \<Longrightarrow>
      length (zombieOwningInfo A) > length (zombieOwningInfo B) \<or>
      (length (zombieOwningInfo A) = length (zombieOwningInfo B) \<and> wcsicmp (sExeName A) (sExeName B) \<le> 0) \<or>
      (wcsicmp (sExeName A) (sExeName B) = 0 \<and> ZombieOwner_t.PID A \<le> ZombieOwner_t.PID B)" for A B
    by (auto simp: in_view_order_def)
  show ?thesis
    unfolding OwnersCollectionSorted_def OwnersCollection_def
  proof (intro conjI allI impI)
    show "set (m_ownersSorted st') = ?S" by (rule s)
    show "length (m_ownersSorted st') = length ?owners" by (rule l)
    fix i assume "Suc i < length (m_ownersSorted st')"
    then obtain A B where AB: "map_of ?owners (m_ownersSorted st' ! i) = Some A"
        "map_of ?owners (m_ownersSorted st' ! Suc i) = Some B" "in_view_order A B"
      using adj by blast
    show "\<exists>A B. map_of ?owners (m_ownersSorted st' ! i) = Some A \<and>
                map_of ?owners (m_ownersSorted st' ! Suc i) = Some B \<and>
                in_view_order A B \<and>
                (length (zombieOwningInfo A) > length (zombieOwningInfo B) \<or>
                 (length (zombieOwningInfo A) = length (zombieOwningInfo B) \<and>
                    wcsicmp (sExeName A) (sExeName B) \<le> 0) \<or>
                 (wcsicmp (sExeName A) (sExeName B) = 0 \<and>
                    ZombieOwner_t.PID A \<le> ZombieOwner_t.PID B))"
      using AB weaker [OF AB(3)] by (intro exI [of _ A] exI [of _ B]) simp
  qed
qed

theorem sorted_view_in_order_witness:
  "fst (Update demo_env 0 (ZombieOwners_init, demo_thread)) = Some Ok \<and>
   OwnersCollectionSorted ZombieOwners_init = [] \<and>
   OwnersCollectionSorted (fst (snd (Update demo_env 0 (ZombieOwners_init, demo_thread)))) = [7, 1, 9] \<and>
   set (OwnersCollectionSorted (fst (snd (Update demo_env 0 (ZombieOwners_init, demo_thread))))) =
     fst ` set (OwnersCollection (fst (snd (Update demo_env 0 (ZombieOwners_init, demo_thread)))))"
proof -
  have e: "OwnersCollectionSorted ZombieOwners_init = []"
    by (simp add: OwnersCollectionSorted_def ZombieOwners_init_def)
  have v: "OwnersCollectionSorted (fst (snd (Update demo_env 0 (ZombieOwners_init, demo_thread)))) = [7, 1, 9]"
    by code_simp
  show ?thesis
    using sorted_view_in_order [OF demo_update e] demo_update_ok e v by blast
qed

text \<open>
  C5. \<open>Update_Impl\<close> clears \<open>m_owners\<close>, \<open>m_unexplained\<close> and the counts but not
  \<open>m_ownersSorted\<close>, to which it only appends. Two successful calls on one object: the
  first finds three owners; the second finds none, and its sorted view still has the
  three pointers of the first run.
\<close>
theorem second_update_keeps_old_pointers:
  "fst (Update demo_env 0 (ZombieOwners_init, demo_thread)) = Some Ok \<and>
   fst (Update demo_env_later 0
          (fst (snd (Update demo_env 0 (ZombieOwners_init, demo_thread))), demo_thread)) = Some Ok \<and>
   OwnersCollection (fst (snd (Update demo_env_later 0
          (fst (snd (Update demo_env 0 (ZombieOwners_init, demo_thread))), demo_thread)))) = [] \<and>
   length (OwnersCollectionSorted (fst (snd (Update demo_env_later 0
          (fst (snd (Update demo_env 0 (ZombieOwners_init, demo_thread))), demo_thread))))) = 3"
proof -
  let ?st1 = "fst (snd (Update demo_env 0 (ZombieOwners_init, demo_thread)))"
  let ?run2 = "Update demo_env_later 0 (?st1, demo_thread)"
  have ok2: "fst ?run2 = Some Ok" by code_simp
  then have run2: "?run2 = (Some Ok, fst (snd ?run2), snd (snd ?run2))"
    by (metis prod.collapse)
  have o2: "m_owners (fst (snd ?run2)) = []" by code_simp
  have l1: "length (m_ownersSorted ?st1) = 3" by code_simp
  have "length (m_ownersSorted (fst (snd ?run2))) = 3"
    using Update_appends_to_sorted [OF run2] o2 l1 by simp
  then show ?thesis
    using demo_update_ok ok2 o2 by (simp add: OwnersCollection_def OwnersCollectionSorted_def)
qed

text \<open>
  C3. When \<open>ImpersonateSelf\<close> succeeds and \<open>EnablePrivilege\<close> fails, \<open>Update\<close> returns
  failure without \<open>RevertToSelf\<close>: the thread, which was not impersonating before the
  call, is impersonating after it.
\<close>
theorem privilege_failure_leaves_thread_impersonating:
  "Update demo_env_no_privilege 3 (ZombieOwners_init, \<lparr>impersonating = False\<rparr>) =
     (Some (Failed CannotEnableDebugPrivilege), ZombieOwners_init, \<lparr>impersonating = True\<rparr>)"
  by code_simp

text \<open>
  C4, as stated, fails: when the snapshot fails after discovery has succeeded, \<open>Update\<close>
  returns failure and the three counts are those of the discovery, not zero.
\<close>
theorem failed_update_counts_counterexample:
  "fst (Update demo_env_snapshot_fails 0 (ZombieOwners_init, demo_thread)) =
     Some (Failed (FirstCallFailed 0xC0000022)) \<and>
   TotalProcessCount (fst (snd (Update demo_env_snapshot_fails 0 (ZombieOwners_init, demo_thread)))) \<noteq> 0 \<and>
   ZombieProcessCount (fst (snd (Update demo_env_snapshot_fails 0 (ZombieOwners_init, demo_thread)))) \<noteq> 0 \<and>
   ZombieProcessAndThreadCount (fst (snd (Update demo_env_snapshot_fails 0 (ZombieOwners_init, demo_thread)))) \<noteq> 0"
  by code_simp

text \<open>
  C4, amended. When \<open>Update\<close> returns failure: if it failed at \<open>ImpersonateSelf\<close> or
  at enabling the privilege, the object is as it was before the call; otherwise
  \<open>OwnersCollection()\<close> and \<open>UnexplainedZombies()\<close> are empty, and the three counts are
  zero when discovery failed and are the counts of the discovery when it succeeded and
  the snapshot failed.
\<close>
theorem failed_update_state:
  assumes "Update env nAgeInSeconds (st, th) = (Some (Failed e), st', th')"
  shows "(\<not> impersonateSelfOk env \<or> \<not> EnablePrivilege (priv env) \<longrightarrow> st' = st) \<and>
         (impersonateSelfOk env \<and> EnablePrivilege (priv env) \<longrightarrow>
            OwnersCollection st' = [] \<and> UnexplainedZombies st' = [] \<and>
            (case AcquireNewHandlesToExistingZombies (discovery env) nAgeInSeconds ZombieHandles_init of
               (Failed e', zombieHandles, pidLookup, errs, cl) \<Rightarrow>
                 ZombieProcessAndThreadCount st' = 0 \<and> ZombieProcessCount st' = 0 \<and>
                 TotalProcessCount st' = 0
             | (Ok, zombieHandles, pidLookup, errs, cl) \<Rightarrow>
                 ZombieProcessAndThreadCount st' = length (m_ZombieHandleLookup zombieHandles) \<and>
                 ZombieProcessCount st' = ZombieHandles.m_nZombieProcesses zombieHandles \<and>
                 TotalProcessCount st' = ZombieHandles.m_nTotalProcesses zombieHandles))"
proof (cases "impersonateSelfOk env \<and> EnablePrivilege (priv env)")
  case False
  then have "st' = st" using assms by (auto simp: Update_def Let_def split: if_splits)
  then show ?thesis using False by blast
next
  case True
  then have "\<exists>ev. Update_Impl env nAgeInSeconds st = (Some (Failed e), st', ev)"
    using assms by (auto simp: Update_def Let_def split: prod.splits)
  then obtain ev where "Update_Impl env nAgeInSeconds st = (Some (Failed e), st', ev)" ..
  then show ?thesis
  proof (cases rule: Update_Impl_cases)
    case (discovery_failed e' zh pl errs cl)
    then show ?thesis
      using True
      by (simp add: OwnersCollection_def UnexplainedZombies_def ZombieProcessAndThreadCount_def
            ZombieProcessCount_def TotalProcessCount_def)
  next
    case (snapshot_not_ok zh pl errs cl ahs tr)
    then show ?thesis
      using True
      by (simp add: OwnersCollection_def UnexplainedZombies_def ZombieProcessAndThreadCount_def
            ZombieProcessCount_def TotalProcessCount_def)
  next
    case (finished zh pl errs cl ahs tr owners pids)
    then show ?thesis by simp
  qed
qed

theorem failed_update_state_witness:
  "Update demo_env_snapshot_fails 0 (ZombieOwners_init, demo_thread) =
     (Some (Failed (FirstCallFailed 0xC0000022)),
      ZombieOwners_init\<lparr>m_nZombieProcessesAndThreads := 3,
                        ZombieOwners.m_nZombieProcesses := 2, ZombieOwners.m_nTotalProcesses := 3\<rparr>,
      demo_thread) \<and>
   OwnersCollection (fst (snd (Update demo_env_snapshot_fails 0 (ZombieOwners_init, demo_thread)))) = [] \<and>
   UnexplainedZombies (fst (snd (Update demo_env_snapshot_fails 0 (ZombieOwners_init, demo_thread)))) = [] \<and>
   Update demo_env_no_privilege 0 (ZombieOwners_init, demo_thread) =
     (Some (Failed CannotEnableDebugPrivilege), ZombieOwners_init, \<lparr>impersonating = True\<rparr>)"
proof -
  have r: "Update demo_env_snapshot_fails 0 (ZombieOwners_init, demo_thread) =
     (Some (Failed (FirstCallFailed 0xC0000022)),
      ZombieOwners_init\<lparr>m_nZombieProcessesAndThreads := 3,
                        ZombieOwners.m_nZombieProcesses := 2, ZombieOwners.m_nTotalProcesses := 3\<rparr>,
      demo_thread)"
    by code_simp
  have p: "impersonateSelfOk demo_env_snapshot_fails \<and> EnablePrivilege (priv demo_env_snapshot_fails)"
    by code_simp
  have n: "Update demo_env_no_privilege 0 (ZombieOwners_init, demo_thread) =
     (Some (Failed CannotEnableDebugPrivilege), ZombieOwners_init, \<lparr>impersonating = True\<rparr>)"
    by code_simp
  have q: "\<not> EnablePrivilege (priv demo_env_no_privilege)" by code_simp
  show ?thesis
    using failed_update_state [OF r] failed_update_state [OF n] p q r n by simp
qed

end
